theory Spec2Isabelle
  imports Complex_Main "HOL-Library.Sublist"
begin

text \<open>
  A model of the telemetry pipeline of \<^verbatim>\<open>server/index.js\<close>: the record flattener, the
  field resolver, the two record normalizers, body explode, the deduplicator, the source
  fetcher, the enrichment stage, and the cache with its warm cycle and its query handler.
  Each function of the source is a definition of the same name.  An exception is a value
  \<open>Inl\<close> of a sum; what the network and the clock give is an argument.  The definitions
  come first, the properties after them.
\<close>

section \<open>Values of the host language\<close>

text \<open>
  The server (\<^verbatim>\<open>server/index.js\<close>) works on untyped JSON data.  A JavaScript number is
  a double: it is modelled as a rational, or one of the three non-finite values.  The one
  arithmetic result of the server that can need rounding is the product in \<open>toMs\<close>.
\<close>

datatype jsnum = NaN | PosInf | NegInf | Fin rat

text \<open>
  A JSON value.  An object is the list of its own enumerable properties in the order
  \<^verbatim>\<open>Object.entries\<close> yields them.  \<^verbatim>\<open>undefined\<close> is not a JSON value: a read that
  yields it returns \<open>None\<close>.  A string is a list of 8-bit code units.
\<close>

datatype jv =
    JNull
  | JBool bool
  | JNum jsnum
  | JStr string
  | JArr "jv list"
  | JObj "(string \<times> jv) list"

datatype exn = SyntaxError | RangeError | TypeError | NetworkError

text \<open>
  The library functions of the runtime that the server calls and whose code is not part
  of the repository.  Every theorem below holds for any choice of them.
  \<^item> \<open>str2num\<close>: conversion of a string to a number (\<^verbatim>\<open>+s\<close>, \<^verbatim>\<open>Number(s)\<close>);
  \<^item> \<open>num2str\<close>: conversion of a number to a string (\<^verbatim>\<open>String(n)\<close>, template literals);
  \<^item> \<open>JSON_parse\<close>: \<^verbatim>\<open>JSON.parse\<close>, which throws on malformed text;
  \<^item> \<open>Date_parse\<close>: \<^verbatim>\<open>Date.parse\<close>;
  \<^item> \<open>iso_fmt\<close>: the text \<^verbatim>\<open>Date.prototype.toISOString\<close> prints for a valid time value;
  \<^item> \<open>round_double\<close>: the double nearest to a rational number, an infinity beyond the
    range of the doubles: the rounding of the result of an arithmetic operation.
\<close>

record runtime =
  str2num :: "string \<Rightarrow> jsnum"
  num2str :: "jsnum \<Rightarrow> string"
  JSON_parse :: "string \<Rightarrow> exn + jv"
  Date_parse :: "string \<Rightarrow> jsnum"
  iso_fmt :: "rat \<Rightarrow> string"
  round_double :: "rat \<Rightarrow> jsnum"

subsection \<open>Type tests and coercions\<close>

fun isArray :: "jv \<Rightarrow> bool" where
  "isArray (JArr xs) = True"
| "isArray v = False"

text \<open>\<^verbatim>\<open>v && typeof v === 'object'\<close> for a value that is not an array.\<close>

fun isPlainObject :: "jv \<Rightarrow> bool" where
  "isPlainObject (JObj kvs) = True"
| "isPlainObject v = False"

fun isScalar :: "jv \<Rightarrow> bool" where
  "isScalar (JArr xs) = False"
| "isScalar (JObj kvs) = False"
| "isScalar v = True"

fun isFinite :: "jsnum \<Rightarrow> bool" where
  "isFinite (Fin r) = True"
| "isFinite n = False"

text \<open>Decimal digits of an array index, as a template literal prints it.\<close>

definition digit_char :: "nat \<Rightarrow> char" where
  "digit_char d = char_of (48 + d)"

fun show_nat :: "nat \<Rightarrow> string" where
  "show_nat n = (if n < 10 then [digit_char n] else show_nat (n div 10) @ [digit_char (n mod 10)])"

declare show_nat.simps [simp del]

subsection \<open>Objects as ordered property lists\<close>

text \<open>
  An array index is the canonical decimal form of a number below \<open>2^32 - 1\<close>.  The own
  keys of an object are enumerated with the array indices first, in ascending order, and
  the other keys after them in the order of their creation.
\<close>

definition is_digit :: "char \<Rightarrow> bool" where
  "is_digit c = (48 \<le> (of_char c :: nat) \<and> (of_char c :: nat) \<le> 57)"

fun digits_val :: "nat \<Rightarrow> string \<Rightarrow> nat" where
  "digits_val acc [] = acc"
| "digits_val acc (c # cs) = digits_val (10 * acc + ((of_char c :: nat) - 48)) cs"

definition array_index :: "string \<Rightarrow> nat option" where
  "array_index k =
     (if k \<noteq> [] \<and> list_all is_digit k \<and> (k = ''0'' \<or> hd k \<noteq> CHR ''0'')
         \<and> length k \<le> 10 \<and> digits_val 0 k < 4294967295
      then Some (digits_val 0 k) else None)"

definition obj_get :: "(string \<times> jv) list \<Rightarrow> string \<Rightarrow> jv option" where
  "obj_get kvs k = map_of kvs k"

definition has_key :: "(string \<times> jv) list \<Rightarrow> string \<Rightarrow> bool" where
  "has_key kvs k = (k \<in> set (map fst kvs))"

fun replace_val :: "(string \<times> jv) list \<Rightarrow> string \<Rightarrow> jv \<Rightarrow> (string \<times> jv) list" where
  "replace_val [] k v = []"
| "replace_val ((k', v') # kvs) k v =
     (if k' = k then (k, v) # kvs else (k', v') # replace_val kvs k v)"

text \<open>Where a new array-index key \<open>i\<close> goes: before the first key that is no smaller index.\<close>

fun insert_index :: "nat \<Rightarrow> string \<Rightarrow> jv \<Rightarrow> (string \<times> jv) list \<Rightarrow> (string \<times> jv) list" where
  "insert_index i k v [] = [(k, v)]"
| "insert_index i k v ((k', v') # kvs) =
     (case array_index k' of
        None \<Rightarrow> (k, v) # (k', v') # kvs
      | Some j \<Rightarrow> if i < j then (k, v) # (k', v') # kvs else (k', v') # insert_index i k v kvs)"

text \<open>Creating or overwriting the own data property \<open>k\<close>.\<close>

definition define_prop :: "(string \<times> jv) list \<Rightarrow> string \<Rightarrow> jv \<Rightarrow> (string \<times> jv) list" where
  "define_prop kvs k v =
     (if has_key kvs k then replace_val kvs k v
      else case array_index k of
             None \<Rightarrow> kvs @ [(k, v)]
           | Some i \<Rightarrow> insert_index i k v kvs)"

text \<open>
  The assignment \<^verbatim>\<open>out[k] = v\<close> on an object created by \<^verbatim>\<open>{}\<close>, for a primitive \<open>v\<close>.
  The key \<^verbatim>\<open>__proto__\<close> names the accessor inherited from \<^verbatim>\<open>Object.prototype\<close>, whose
  setter ignores a primitive: that assignment creates no property.
\<close>

definition assign_prop :: "(string \<times> jv) list \<Rightarrow> string \<Rightarrow> jv \<Rightarrow> (string \<times> jv) list" where
  "assign_prop out k v = (if k = ''__proto__'' then out else define_prop out k v)"

subsection \<open>Coercions\<close>

text \<open>
  \<^verbatim>\<open>String(v)\<close>.  An array prints its elements joined by commas, \<^verbatim>\<open>null\<close> elements as
  the empty string.  An object prints as \<^verbatim>\<open>[object Object]\<close> through the method it
  inherits; when it has an own property \<^verbatim>\<open>toString\<close>, which in JSON data is no function,
  no method converts it and the conversion throws a \<^verbatim>\<open>TypeError\<close>.
\<close>

fun ToString :: "runtime \<Rightarrow> jv \<Rightarrow> exn + string"
  and join_elems :: "runtime \<Rightarrow> jv list \<Rightarrow> exn + string" where
  "ToString rt JNull = Inr ''null''"
| "ToString rt (JBool b) = Inr (if b then ''true'' else ''false'')"
| "ToString rt (JNum n) = Inr (num2str rt n)"
| "ToString rt (JStr s) = Inr s"
| "ToString rt (JArr xs) = join_elems rt xs"
| "ToString rt (JObj kvs) =
     (if has_key kvs ''toString'' then Inl TypeError else Inr ''[object Object]'')"
| "join_elems rt [] = Inr []"
| "join_elems rt [x] = (if x = JNull then Inr [] else ToString rt x)"
| "join_elems rt (x # y # ys) =
     (case (if x = JNull then Inr [] else ToString rt x) of
        Inl e \<Rightarrow> Inl e
      | Inr s \<Rightarrow>
          (case join_elems rt (y # ys) of
             Inl e \<Rightarrow> Inl e
           | Inr r \<Rightarrow> Inr (s @ '','' @ r)))"

text \<open>
  \<^verbatim>\<open>+v\<close> and \<^verbatim>\<open>Number(v)\<close>.  The argument is the result of a read, so \<open>None\<close> is
  \<^verbatim>\<open>undefined\<close>.  Note \<^verbatim>\<open>+null === 0\<close> and \<^verbatim>\<open>+undefined\<close> is \<^verbatim>\<open>NaN\<close>.  An array or an
  object is converted to a string first, and the conversion throws where that one does.
\<close>

fun ToNumber :: "runtime \<Rightarrow> jv option \<Rightarrow> exn + jsnum" where
  "ToNumber rt None = Inr NaN"
| "ToNumber rt (Some JNull) = Inr (Fin 0)"
| "ToNumber rt (Some (JBool b)) = Inr (if b then Fin 1 else Fin 0)"
| "ToNumber rt (Some (JNum n)) = Inr n"
| "ToNumber rt (Some (JStr s)) = Inr (str2num rt s)"
| "ToNumber rt (Some v) =
     (case ToString rt v of Inl e \<Rightarrow> Inl e | Inr s \<Rightarrow> Inr (str2num rt s))"

section \<open>Record flattener\<close>

text \<open>
  \<^verbatim>\<open>`${prefix}${prefix ? '.' : ''}${k}`\<close>: the dot is written only after a non-empty prefix.
\<close>

definition ext_path :: "string \<Rightarrow> string \<Rightarrow> string" where
  "ext_path pfx k = pfx @ (if pfx = [] then [] else ''.'') @ k"

text \<open>
  \<^verbatim>\<open>flatten(obj, prefix, out)\<close>.  \<open>flatten_arr\<close> is the \<^verbatim>\<open>forEach\<close> over an array, from
  index \<open>i\<close> on; \<open>flatten_obj\<close> is the loop over \<^verbatim>\<open>Object.entries\<close>.  The first test,
  \<^verbatim>\<open>obj == null\<close>, returns \<open>out\<close> as it is.
\<close>

function flatten :: "jv \<Rightarrow> string \<Rightarrow> (string \<times> jv) list \<Rightarrow> (string \<times> jv) list"
  and flatten_arr :: "jv list \<Rightarrow> nat \<Rightarrow> string \<Rightarrow> (string \<times> jv) list \<Rightarrow> (string \<times> jv) list"
  and flatten_obj :: "(string \<times> jv) list \<Rightarrow> string \<Rightarrow> (string \<times> jv) list \<Rightarrow> (string \<times> jv) list" where
  "flatten JNull pfx out = out"
| "flatten (JArr xs) pfx out = flatten_arr xs 0 pfx out"
| "flatten (JObj kvs) pfx out = flatten_obj kvs pfx out"
| "flatten (JBool b) pfx out = assign_prop out pfx (JBool b)"
| "flatten (JNum n) pfx out = assign_prop out pfx (JNum n)"
| "flatten (JStr s) pfx out = assign_prop out pfx (JStr s)"
| "flatten_arr [] i pfx out = out"
| "flatten_arr (x # xs) i pfx out =
     flatten_arr xs (Suc i) pfx (flatten x (ext_path pfx (show_nat i)) out)"
| "flatten_obj [] pfx out = out"
| "flatten_obj ((k, v) # kvs) pfx out =
     flatten_obj kvs pfx (flatten v (ext_path pfx k) out)"
  by pat_completeness auto
termination
  by (relation "measure (\<lambda>a. case a of
          Inl (v, p, out) \<Rightarrow> size v
        | Inr (Inl (xs, i, p, out)) \<Rightarrow> size_list size xs
        | Inr (Inr (kvs, p, out)) \<Rightarrow> size_list (size_prod (\<lambda>k. 0) size) kvs)") auto

text \<open>\<^verbatim>\<open>Object.keys(flat)\<close>, as a set.\<close>

definition keys_of :: "(string \<times> jv) list \<Rightarrow> string set" where
  "keys_of kvs = set (map fst kvs)"

text \<open>
  \<open>leaf_at v segs l\<close>: following the path segments \<open>segs\<close> (object keys and array
  indices) from \<open>v\<close> leads to the scalar \<open>l\<close>, which is not \<^verbatim>\<open>null\<close>.  The accumulated
  path of the leaf under the prefix \<open>pfx\<close> is \<open>foldl ext_path pfx segs\<close>.
\<close>

inductive leaf_at :: "jv \<Rightarrow> string list \<Rightarrow> jv \<Rightarrow> bool" where
  here: "isScalar v \<Longrightarrow> v \<noteq> JNull \<Longrightarrow> leaf_at v [] v"
| in_arr: "i < length xs \<Longrightarrow> leaf_at (xs ! i) segs l \<Longrightarrow> leaf_at (JArr xs) (show_nat i # segs) l"
| in_obj: "(k, v) \<in> set kvs \<Longrightarrow> leaf_at v segs l \<Longrightarrow> leaf_at (JObj kvs) (k # segs) l"

text \<open>
  The scalar leaves of a value that are not \<^verbatim>\<open>null\<close>, each with its accumulated path
  under the prefix, in the order of the walk: the elements of an array by index, the
  entries of an object in the order of \<^verbatim>\<open>Object.entries\<close>.
\<close>

function leaves :: "jv \<Rightarrow> string \<Rightarrow> (string \<times> jv) list"
  and leaves_arr :: "jv list \<Rightarrow> nat \<Rightarrow> string \<Rightarrow> (string \<times> jv) list"
  and leaves_obj :: "(string \<times> jv) list \<Rightarrow> string \<Rightarrow> (string \<times> jv) list" where
  "leaves JNull pfx = []"
| "leaves (JArr xs) pfx = leaves_arr xs 0 pfx"
| "leaves (JObj kvs) pfx = leaves_obj kvs pfx"
| "leaves (JBool b) pfx = [(pfx, JBool b)]"
| "leaves (JNum n) pfx = [(pfx, JNum n)]"
| "leaves (JStr s) pfx = [(pfx, JStr s)]"
| "leaves_arr [] i pfx = []"
| "leaves_arr (x # xs) i pfx = leaves x (ext_path pfx (show_nat i)) @ leaves_arr xs (Suc i) pfx"
| "leaves_obj [] pfx = []"
| "leaves_obj ((k, v) # kvs) pfx = leaves v (ext_path pfx k) @ leaves_obj kvs pfx"
  by pat_completeness auto
termination
  by (relation "measure (\<lambda>a. case a of
          Inl (v, p) \<Rightarrow> size v
        | Inr (Inl (xs, i, p)) \<Rightarrow> size_list size xs
        | Inr (Inr (kvs, p)) \<Rightarrow> size_list (size_prod (\<lambda>k. 0) size) kvs)") auto

text \<open>The effect of one assignment \<^verbatim>\<open>out[path] = leaf\<close> on the reads of the mapping.\<close>

definition store_leaf :: "(string \<Rightarrow> jv option) \<Rightarrow> string \<times> jv \<Rightarrow> (string \<Rightarrow> jv option)" where
  "store_leaf m pl = (if fst pl = ''__proto__'' then m else m(fst pl \<mapsto> snd pl))"

text \<open>Every value of the mapping is a scalar.\<close>

definition scalar_values :: "(string \<times> jv) list \<Rightarrow> bool" where
  "scalar_values kvs = list_all (\<lambda>kv. isScalar (snd kv)) kvs"

section \<open>Field resolver\<close>

text \<open>
  \<^verbatim>\<open>String.prototype.toLowerCase\<close> on 8-bit code units: the ASCII capitals and the
  capitals of the Latin-1 block.
\<close>

definition lower_char :: "char \<Rightarrow> char" where
  "lower_char c =
     (let n = (of_char c :: nat)
      in if (65 \<le> n \<and> n \<le> 90) \<or> (192 \<le> n \<and> n \<le> 222 \<and> n \<noteq> 215)
         then char_of (n + 32) else c)"

definition toLowerCase :: "string \<Rightarrow> string" where
  "toLowerCase s = map lower_char s"

definition KEY_id :: "string list" where
  "KEY_id = [''id'', ''balloon_id'', ''balloonId'', ''name'', ''serial'', ''imei'', ''device'', ''callsign'']"

definition KEY_time :: "string list" where
  "KEY_time = [''t'', ''ts'', ''timestamp'', ''time'', ''datetime'', ''date'', ''observed'', ''recordedAt'']"

definition KEY_lat :: "string list" where
  "KEY_lat = [''lat'', ''latitude'', ''position.lat'', ''pos.lat'', ''coords.lat'', ''location.lat'']"

definition KEY_lon :: "string list" where
  "KEY_lon = [''lon'', ''lng'', ''longitude'', ''position.lon'', ''pos.lon'', ''coords.lon'', ''location.lon'']"

definition KEY_alt :: "string list" where
  "KEY_alt = [''alt'', ''altitude'', ''elev'', ''elevation'', ''height'']"

text \<open>
  \<^verbatim>\<open>flat[k]\<close> when \<^verbatim>\<open>flat[k] != null\<close>.  Reads look at own properties only: no key the
  server reads by name is a property of \<^verbatim>\<open>Object.prototype\<close>.
\<close>

definition get_nonnull :: "(string \<times> jv) list \<Rightarrow> string \<Rightarrow> jv option" where
  "get_nonnull flat k =
     (case obj_get flat k of None \<Rightarrow> None | Some v \<Rightarrow> if v = JNull then None else Some v)"

text \<open>
  \<^verbatim>\<open>findByKeys(flat, keys)\<close>.  The result \<open>JNull\<close> is the final \<^verbatim>\<open>return null\<close>.  A hit
  of the case-insensitive scan counts only if it is truthy, that is a non-empty key.
\<close>

fun findByKeys :: "(string \<times> jv) list \<Rightarrow> string list \<Rightarrow> jv" where
  "findByKeys flat [] = JNull"
| "findByKeys flat (k # ks) =
     (case get_nonnull flat k of
        Some v \<Rightarrow> v
      | None \<Rightarrow>
         (case find (\<lambda>kk. toLowerCase kk = toLowerCase k) (map fst flat) of
            None \<Rightarrow> findByKeys flat ks
          | Some hit \<Rightarrow>
             (if hit = [] then findByKeys flat ks
              else case get_nonnull flat hit of
                     Some v \<Rightarrow> v
                   | None \<Rightarrow> findByKeys flat ks)))"

text \<open>\<^verbatim>\<open>a ?? b\<close> on the results of two reads.\<close>

definition nullish_or :: "jv option \<Rightarrow> jv option \<Rightarrow> jv option" where
  "nullish_or a b = (case a of None \<Rightarrow> b | Some v \<Rightarrow> if v = JNull then b else Some v)"

text \<open>
  The product \<^verbatim>\<open>n * 1000\<close> of \<open>toMs\<close>.  A whole number of magnitude up to \<open>2^53\<close> is a
  double, so the product is exact when it is one; otherwise it is rounded.
\<close>

definition times1000 :: "runtime \<Rightarrow> rat \<Rightarrow> jsnum" where
  "times1000 rt n =
     (if of_int \<lfloor>n * 1000\<rfloor> = n * 1000 \<and> \<bar>n * 1000\<bar> \<le> 2 ^ 53 then Fin (n * 1000)
      else round_double rt (n * 1000))"

text \<open>\<^verbatim>\<open>toMs(tsLike)\<close>.\<close>

definition toMs :: "runtime \<Rightarrow> jv option \<Rightarrow> exn + jsnum" where
  "toMs rt tsLike =
     (case tsLike of
        None \<Rightarrow> Inr NaN
      | Some v \<Rightarrow>
         if v = JNull then Inr NaN
         else (case ToNumber rt (Some v) of
                 Inl e \<Rightarrow> Inl e
               | Inr (Fin n) \<Rightarrow> Inr (if n < 10 ^ 12 then times1000 rt n else Fin n)
               | Inr m \<Rightarrow>
                   (case ToString rt v of
                      Inl e \<Rightarrow> Inl e
                    | Inr s \<Rightarrow> Inr (case Date_parse rt s of Fin d \<Rightarrow> Fin d | _ \<Rightarrow> NaN))))"

subsection \<open>The key pattern of the timestamp guess\<close>

text \<open>
  \<^verbatim>\<open>/\b(time|timestamp|ts|datetime)\b/i.test(k)\<close>: one of the four words, in any case,
  starts where the previous character is no word character and ends where the next one
  is none.  Without the \<^verbatim>\<open>u\<close> flag only ASCII letters match the letters of the pattern.
\<close>

definition is_word_char :: "char \<Rightarrow> bool" where
  "is_word_char c =
     (let n = (of_char c :: nat)
      in (48 \<le> n \<and> n \<le> 57) \<or> (65 \<le> n \<and> n \<le> 90) \<or> (97 \<le> n \<and> n \<le> 122) \<or> n = 95)"

definition ascii_lower :: "char \<Rightarrow> char" where
  "ascii_lower c =
     (let n = (of_char c :: nat) in if 65 \<le> n \<and> n \<le> 90 then char_of (n + 32) else c)"

definition word_here :: "string \<Rightarrow> string \<Rightarrow> bool" where
  "word_here w s =
     (length w \<le> length s \<and> map ascii_lower (take (length w) s) = w
      \<and> (case drop (length w) s of [] \<Rightarrow> True | c # cs \<Rightarrow> (if is_word_char c then False else True)))"

text \<open>\<open>pw\<close>: the previous character is a word character.\<close>

fun time_regex_from :: "bool \<Rightarrow> string \<Rightarrow> bool" where
  "time_regex_from pw [] = False"
| "time_regex_from pw (c # cs) =
     (if pw then time_regex_from (is_word_char c) cs
      else (list_ex (\<lambda>w. word_here w (c # cs)) [''time'', ''timestamp'', ''ts'', ''datetime'']
            \<or> time_regex_from (is_word_char c) cs))"

definition time_regex :: "string \<Rightarrow> bool" where
  "time_regex k = time_regex_from False k"

text \<open>
  \<^verbatim>\<open>flat[guess]\<close> for \<^verbatim>\<open>guess = Object.keys(flat).find(...)\<close>: when no key matches,
  \<^verbatim>\<open>guess\<close> is \<^verbatim>\<open>undefined\<close> and the read is that of the key \<^verbatim>\<open>"undefined"\<close>.
\<close>

definition guess_key :: "(string \<times> jv) list \<Rightarrow> string" where
  "guess_key flat = (case find time_regex (map fst flat) of None \<Rightarrow> ''undefined'' | Some g \<Rightarrow> g)"

subsection \<open>Geometry fallback\<close>

definition is_space :: "char \<Rightarrow> bool" where
  "is_space c = ((of_char c :: nat) \<in> {9, 10, 11, 12, 13, 32, 160})"

definition trim :: "string \<Rightarrow> string" where
  "trim s = rev (dropWhile is_space (rev (dropWhile is_space s)))"

text \<open>\<^verbatim>\<open>s.split(c)\<close> for a one-character separator.\<close>

fun split_on :: "char \<Rightarrow> string \<Rightarrow> string list" where
  "split_on c [] = [[]]"
| "split_on c (x # xs) =
     (if x = c then [] # split_on c xs
      else case split_on c xs of [] \<Rightarrow> [[x]] | p # ps \<Rightarrow> (x # p) # ps)"

text \<open>
  \<^verbatim>\<open>Array.isArray(v) && v.length >= 2 && Number.isFinite(+v[0]) && Number.isFinite(+v[1])\<close>,
  with the two numbers.  The second element is converted only when the first is finite.
\<close>

definition num_pair :: "runtime \<Rightarrow> jv option \<Rightarrow> exn + (rat \<times> rat) option" where
  "num_pair rt v =
     (case v of
        Some (JArr (x # y # zs)) \<Rightarrow>
          (case ToNumber rt (Some x) of
             Inl e \<Rightarrow> Inl e
           | Inr (Fin a) \<Rightarrow>
               (case ToNumber rt (Some y) of
                  Inl e \<Rightarrow> Inl e
                | Inr (Fin b) \<Rightarrow> Inr (Some (a, b))
                | Inr m \<Rightarrow> Inr None)
           | Inr m \<Rightarrow> Inr None)
      | _ \<Rightarrow> Inr None)"

text \<open>
  \<^verbatim>\<open>typeof v === 'string' && v.includes(',')\<close>, with the first two pieces as numbers when
  both are finite.
\<close>

definition comma_pair :: "runtime \<Rightarrow> jv option \<Rightarrow> (rat \<times> rat) option" where
  "comma_pair rt v =
     (case v of
        Some (JStr s) \<Rightarrow>
          (if CHR '','' \<in> set s then
             (case split_on CHR '','' s of
                p # q # ps \<Rightarrow>
                  (case str2num rt (trim p) of
                     Fin a \<Rightarrow> (case str2num rt (trim q) of Fin b \<Rightarrow> Some (a, b) | _ \<Rightarrow> None)
                   | _ \<Rightarrow> None)
              | _ \<Rightarrow> None)
           else None)
      | _ \<Rightarrow> None)"

text \<open>
  The loop over the generic candidates.  The results of \<open>latLonFromGeo\<close> are pairs
  \<open>(lat, lon)\<close>.
\<close>

fun geo_cands :: "runtime \<Rightarrow> (string \<times> jv) list \<Rightarrow> string list \<Rightarrow> exn + (rat \<times> rat) option" where
  "geo_cands rt flat [] = Inr None"
| "geo_cands rt flat (c # cs) =
     (let v = obj_get flat c
      in case num_pair rt v of
           Inl e \<Rightarrow> Inl e
         | Inr np \<Rightarrow>
            (case (case np of
                     None \<Rightarrow> None
                   | Some (a, b) \<Rightarrow>
                       if \<bar>a\<bar> \<le> 90 \<and> \<bar>b\<bar> \<le> 180 then Some (a, b)
                       else if \<bar>b\<bar> \<le> 90 \<and> \<bar>a\<bar> \<le> 180 then Some (b, a)
                       else None) of
               Some r \<Rightarrow> Inr (Some r)
             | None \<Rightarrow>
                (case comma_pair rt v of
                   Some (a, b) \<Rightarrow> Inr (Some (if \<bar>a\<bar> \<le> 90 then (a, b) else (b, a)))
                 | None \<Rightarrow> geo_cands rt flat cs)))"

definition latLonFromGeo :: "runtime \<Rightarrow> (string \<times> jv) list \<Rightarrow> exn + (rat \<times> rat) option" where
  "latLonFromGeo rt flat =
     (let g = nullish_or (obj_get flat ''geometry.coordinates'')
                (nullish_or (obj_get flat ''geom.coordinates'') (obj_get flat ''coordinates''))
      in case num_pair rt g of
           Inl e \<Rightarrow> Inl e
         | Inr (Some (x, y)) \<Rightarrow> Inr (Some (y, x))
         | Inr None \<Rightarrow>
            geo_cands rt flat
              [''coord'', ''coords'', ''coordinate'', ''coordinates'', ''position'', ''pos'', ''location''])"

section \<open>Record normalizer\<close>

text \<open>
  The canonical point.  Its numbers are finite: the normalizers build one only after
  their \<^verbatim>\<open>Number.isFinite\<close> tests.  \<open>alt = None\<close> is \<^verbatim>\<open>alt: null\<close>.
\<close>

record point =
  id_p :: string
  ts :: rat
  iso :: string
  lat :: rat
  lon :: rat
  alt :: "rat option"

text \<open>
  \<^verbatim>\<open>new Date(ts).toISOString()\<close> for a finite \<open>ts\<close>: a time value beyond
  \<open>8.64 * 10^15\<close> ms of the epoch is no date, and printing it throws a \<^verbatim>\<open>RangeError\<close>.
\<close>

definition toISOString :: "runtime \<Rightarrow> rat \<Rightarrow> exn + string" where
  "toISOString rt t = (if \<bar>t\<bar> > 8640000000000000 then Inl RangeError else Inr (iso_fmt rt t))"

definition padStart2 :: "string \<Rightarrow> string" where
  "padStart2 s = replicate (2 - length s) CHR ''0'' @ s"

text \<open>\<^verbatim>\<open>rec[i]\<close>: \<^verbatim>\<open>undefined\<close> beyond the end of the array.\<close>

definition elem :: "jv list \<Rightarrow> nat \<Rightarrow> jv option" where
  "elem xs i = (if i < length xs then Some (xs ! i) else None)"

definition finite_or_null :: "jsnum \<Rightarrow> rat option" where
  "finite_or_null n = (case n of Fin a \<Rightarrow> Some a | _ \<Rightarrow> None)"

text \<open>
  \<^verbatim>\<open>normalizeTuple(rec, hour, idx)\<close>; \<open>now\<close> is what \<^verbatim>\<open>Date.now()\<close> returns in the call.
  The first two elements are converted before any test; the third only after the tests of
  the bounds.
\<close>

definition normalizeTuple :: "runtime \<Rightarrow> int \<Rightarrow> jv \<Rightarrow> nat \<Rightarrow> nat \<Rightarrow> exn + point option" where
  "normalizeTuple rt now rec hour idx =
     (case rec of
        JArr xs \<Rightarrow>
          if length xs < 2 then Inr None
          else
            (case ToNumber rt (elem xs 0) of
               Inl e \<Rightarrow> Inl e
             | Inr la0 \<Rightarrow>
                (case ToNumber rt (elem xs 1) of
                   Inl e \<Rightarrow> Inl e
                 | Inr lo0 \<Rightarrow>
                    (case la0 of
                       Fin la \<Rightarrow>
                         (case lo0 of
                            Fin lo \<Rightarrow>
                              if \<bar>la\<bar> > 90 \<or> \<bar>lo\<bar> > 180 then Inr None
                              else
                                (case ToNumber rt (elem xs 2) of
                                   Inl e \<Rightarrow> Inl e
                                 | Inr a0 \<Rightarrow>
                                    (let t = of_int now - of_nat hour * 3600 * 1000
                                     in case toISOString rt t of
                                          Inl e \<Rightarrow> Inl e
                                        | Inr i \<Rightarrow>
                                            Inr (Some \<lparr>id_p = padStart2 (show_nat hour) @ ''-'' @ show_nat idx,
                                                      ts = t, iso = i, lat = la, lon = lo,
                                                      alt = finite_or_null a0\<rparr>)))
                          | _ \<Rightarrow> Inr None)
                     | _ \<Rightarrow> Inr None)))
      | _ \<Rightarrow> Inr None)"

text \<open>
  \<^verbatim>\<open>normalizeObject(rec)\<close>.  The first test lets arrays and objects through.  The geometry
  fallback is consulted only when \<^verbatim>\<open>+findByKeys(...)\<close> is not finite for one of the two
  coordinates.
\<close>

definition normalizeObject :: "runtime \<Rightarrow> jv \<Rightarrow> exn + point option" where
  "normalizeObject rt rec =
     (if isArray rec \<or> isPlainObject rec then
        (let flat = flatten rec [] [] in
         case nullish_or (Some (findByKeys flat KEY_id)) (obj_get flat ''__key'') of
           None \<Rightarrow> Inr None
         | Some i \<Rightarrow>
            if i = JNull then Inr None
            else
              (case toMs rt (Some (findByKeys flat KEY_time)) of
                 Inl e \<Rightarrow> Inl e
               | Inr t0 \<Rightarrow>
                  (case (if isFinite t0 then Inr t0 else toMs rt (obj_get flat (guess_key flat))) of
                     Inl e \<Rightarrow> Inl e
                   | Inr (Fin t) \<Rightarrow>
                      (case ToNumber rt (Some (findByKeys flat KEY_lat)) of
                         Inl e \<Rightarrow> Inl e
                       | Inr la0 \<Rightarrow>
                          (case ToNumber rt (Some (findByKeys flat KEY_lon)) of
                             Inl e \<Rightarrow> Inl e
                           | Inr lo0 \<Rightarrow>
                              (case (if isFinite la0 \<and> isFinite lo0 then Inr None
                                     else latLonFromGeo rt flat) of
                                 Inl e \<Rightarrow> Inl e
                               | Inr geo \<Rightarrow>
                                  (let la1 = (case geo of None \<Rightarrow> la0 | Some (y, x) \<Rightarrow> Fin y);
                                       lo1 = (case geo of None \<Rightarrow> lo0 | Some (y, x) \<Rightarrow> Fin x)
                                   in case la1 of
                                        Fin la \<Rightarrow>
                                          (case lo1 of
                                             Fin lo \<Rightarrow>
                                               if \<bar>la\<bar> > 90 \<or> \<bar>lo\<bar> > 180 then Inr None
                                               else
                                                 (case ToNumber rt (Some (findByKeys flat KEY_alt)) of
                                                    Inl e \<Rightarrow> Inl e
                                                  | Inr a0 \<Rightarrow>
                                                     (case ToString rt i of
                                                        Inl e \<Rightarrow> Inl e
                                                      | Inr s \<Rightarrow>
                                                         (case toISOString rt t of
                                                            Inl e \<Rightarrow> Inl e
                                                          | Inr d \<Rightarrow>
                                                              Inr (Some \<lparr>id_p = s, ts = t, iso = d,
                                                                        lat = la, lon = lo,
                                                                        alt = finite_or_null a0\<rparr>))))
                                           | _ \<Rightarrow> Inr None)
                                      | _ \<Rightarrow> Inr None))))
                   | Inr m \<Rightarrow> Inr None)))
      else Inr None)"

section \<open>Body explode\<close>

text \<open>\<^verbatim>\<open>safeJSON(any)\<close>: the \<^verbatim>\<open>catch\<close> turns a parse error into \<^verbatim>\<open>null\<close>.\<close>

definition safeJSON :: "runtime \<Rightarrow> jv \<Rightarrow> jv" where
  "safeJSON rt any =
     (case any of
        JStr s \<Rightarrow> (case JSON_parse rt s of Inl e \<Rightarrow> JNull | Inr v \<Rightarrow> v)
      | _ \<Rightarrow> any)"

text \<open>\<^verbatim>\<open>safeJSON(x) ?? x\<close>.\<close>

definition decoded :: "runtime \<Rightarrow> jv \<Rightarrow> jv" where
  "decoded rt x = (if safeJSON rt x = JNull then x else safeJSON rt x)"

text \<open>The own enumerable properties an object spread copies from a value.\<close>

fun own_entries :: "jv \<Rightarrow> (string \<times> jv) list" where
  "own_entries (JObj kvs) = kvs"
| "own_entries (JArr xs) = zip (map show_nat [0..<length xs]) xs"
| "own_entries (JStr s) = zip (map show_nat [0..<length s]) (map (\<lambda>c. JStr [c]) s)"
| "own_entries v = []"

text \<open>\<^verbatim>\<open>{ __key: k, ...v }\<close>.\<close>

definition with_key :: "string \<Rightarrow> jv \<Rightarrow> jv" where
  "with_key k v =
     JObj (foldl (\<lambda>obj (k', v'). define_prop obj k' v') [(''__key'', JStr k)] (own_entries v))"

text \<open>What one entry of a top-level mapping without a wrapper key contributes.\<close>

definition keyed_records :: "runtime \<Rightarrow> string \<times> jv \<Rightarrow> jv list" where
  "keyed_records rt kv =
     (case snd kv of
        JArr items \<Rightarrow> map (\<lambda>item. with_key (fst kv) (decoded rt item)) items
      | JObj inner \<Rightarrow> [with_key (fst kv) (JObj inner)]
      | _ \<Rightarrow> [])"

text \<open>\<^verbatim>\<open>if (p)\<close>: the truthy values.\<close>

fun truthy :: "jv \<Rightarrow> bool" where
  "truthy JNull = False"
| "truthy (JBool b) = b"
| "truthy (JNum n) = (n \<noteq> Fin 0 \<and> n \<noteq> NaN)"
| "truthy (JStr s) = (s \<noteq> [])"
| "truthy v = True"

text \<open>\<^verbatim>\<open>body.split(/\r?\n/)\<close>.\<close>

fun split_lines :: "string \<Rightarrow> string list" where
  "split_lines [] = [[]]"
| "split_lines [c] = (if c = CHR 0x0A then [[], []] else [[c]])"
| "split_lines (c # d # ds) =
     (if c = CHR 0x0D \<and> d = CHR 0x0A then [] # split_lines ds
      else if c = CHR 0x0A then [] # split_lines (d # ds)
      else case split_lines (d # ds) of [] \<Rightarrow> [[c]] | l # ls \<Rightarrow> (c # l) # ls)"

text \<open>\<^verbatim>\<open>body.split(/\r?\n/).map(s => s.trim()).filter(Boolean)\<close>.\<close>

definition nonblank_lines :: "string \<Rightarrow> string list" where
  "nonblank_lines s = filter (\<lambda>l. l \<noteq> []) (map trim (split_lines s))"

definition explodeBodyToRecords :: "runtime \<Rightarrow> jv \<Rightarrow> jv list" where
  "explodeBodyToRecords rt body =
     (case decoded rt body of
        JArr xs \<Rightarrow> filter (\<lambda>r. r \<noteq> JNull) xs
      | JObj kvs \<Rightarrow>
          (case find (\<lambda>k. case obj_get kvs k of Some (JArr xs) \<Rightarrow> True | _ \<Rightarrow> False)
                  [''data'', ''items'', ''records'', ''points'', ''rows''] of
             Some arrKey \<Rightarrow>
               (case obj_get kvs arrKey of
                  Some (JArr xs) \<Rightarrow> filter (\<lambda>r. r \<noteq> JNull) xs
                | _ \<Rightarrow> [])
           | None \<Rightarrow> concat (map (keyed_records rt) kvs))
      | _ \<Rightarrow>
          (case body of
             JStr s \<Rightarrow>
               (let lines = nonblank_lines s
                in if length lines > 1
                   then filter truthy (map (\<lambda>line. safeJSON rt (JStr line)) lines)
                   else [])
           | _ \<Rightarrow> []))"

text \<open>A string of more than one non-blank line.\<close>

definition multi_line :: "jv \<Rightarrow> bool" where
  "multi_line v = (case v of JStr s \<Rightarrow> length (nonblank_lines s) > 1 | _ \<Rightarrow> False)"

section \<open>Deduplicator and sorter\<close>

text \<open>\<^verbatim>\<open>`${p.id}:${p.ts}`\<close>.\<close>

definition point_key :: "runtime \<Rightarrow> point \<Rightarrow> string" where
  "point_key rt p = id_p p @ '':'' @ num2str rt (Fin (ts p))"

fun dedup_loop :: "runtime \<Rightarrow> point list \<Rightarrow> string set \<Rightarrow> point list \<Rightarrow> point list" where
  "dedup_loop rt [] seen out = out"
| "dedup_loop rt (p # ps) seen out =
     (if point_key rt p \<in> seen then dedup_loop rt ps seen out
      else dedup_loop rt ps (insert (point_key rt p) seen) (out @ [p]))"

text \<open>
  \<^verbatim>\<open>out.sort((a,b) => a.ts - b.ts)\<close>: the sort of the language is stable, and the
  difference of two finite numbers has the sign of their comparison, so the result is the
  stable sort by \<open>ts\<close>.
\<close>

definition dedup :: "runtime \<Rightarrow> point list \<Rightarrow> point list" where
  "dedup rt points = sort_key ts (dedup_loop rt points {} [])"

text \<open>
  Two points share a key when they share both id and timestamp.  \<open>first_pos p ps\<close> is the
  position in \<open>ps\<close> of the first point with the key of \<open>p\<close>, and \<open>key_pos\<close> the same for
  the string key of the code.
\<close>

definition same_key :: "point \<Rightarrow> point \<Rightarrow> bool" where
  "same_key p q = (id_p q = id_p p \<and> ts q = ts p)"

definition first_pos :: "point \<Rightarrow> point list \<Rightarrow> nat" where
  "first_pos p ps = length (takeWhile (\<lambda>q. \<not> same_key p q) ps)"

definition key_pos :: "runtime \<Rightarrow> point \<Rightarrow> point list \<Rightarrow> nat" where
  "key_pos rt p ps = length (takeWhile (\<lambda>q. point_key rt q \<noteq> point_key rt p) ps)"

section \<open>Source fetcher\<close>

record debug_info =
  files_ok :: nat
  files_failed :: nat
  raw_records :: nat
  normalized :: nat
  unique_points :: nat

text \<open>The counters and the array \<^verbatim>\<open>points\<close> of \<^verbatim>\<open>fetchWindborne24h\<close>.\<close>

record tally =
  raw :: nat
  ok :: nat
  bad :: nat
  pushed :: "point list"

definition push_point :: "point option \<Rightarrow> point list \<Rightarrow> point list" where
  "push_point p ps = (case p of None \<Rightarrow> ps | Some q \<Rightarrow> ps @ [q])"

text \<open>
  \<^verbatim>\<open>items.forEach((t, idx) => ...)\<close> of the tuple form, from index \<open>idx\<close> on, for the
  bucket \<open>i\<close>; \<open>clock idx\<close> is the reading of \<^verbatim>\<open>Date.now()\<close> in the call for \<open>idx\<close>.
  An exception of a normalizer leaves the loop and the function.
\<close>

fun tuple_items :: "runtime \<Rightarrow> (nat \<Rightarrow> int) \<Rightarrow> nat \<Rightarrow> nat \<Rightarrow> jv list \<Rightarrow> point list \<Rightarrow> exn + point list" where
  "tuple_items rt clock i idx [] ps = Inr ps"
| "tuple_items rt clock i idx (t # items) ps =
     (case normalizeTuple rt (clock idx) t i idx of
        Inl e \<Rightarrow> Inl e
      | Inr p \<Rightarrow> tuple_items rt clock i (Suc idx) items (push_point p ps))"

fun object_items :: "runtime \<Rightarrow> jv list \<Rightarrow> point list \<Rightarrow> exn + point list" where
  "object_items rt [] ps = Inr ps"
| "object_items rt (x # items) ps =
     (case normalizeObject rt x of
        Inl e \<Rightarrow> Inl e
      | Inr p \<Rightarrow> object_items rt items (push_point p ps))"

text \<open>
  The loop over the settled results, from bucket \<open>i\<close> on.  A result is \<open>Inl\<close> for a
  rejected retrieval and \<open>Inr\<close> with the body for a fulfilled one.
\<close>

fun fetch_loop :: "runtime \<Rightarrow> (nat \<Rightarrow> nat \<Rightarrow> int) \<Rightarrow> nat \<Rightarrow> (exn + jv) list \<Rightarrow> tally \<Rightarrow> exn + tally" where
  "fetch_loop rt clock i [] st = Inr st"
| "fetch_loop rt clock i (r # results) st =
     (case r of
        Inl e \<Rightarrow> fetch_loop rt clock (Suc i) results (st\<lparr>bad := bad st + 1\<rparr>)
      | Inr body \<Rightarrow>
          (let items = explodeBodyToRecords rt body;
               st1 = st\<lparr>ok := ok st + 1, raw := raw st + length items\<rparr>
           in case (if (case items of [] \<Rightarrow> False | x # xs \<Rightarrow> isArray x)
                    then tuple_items rt (clock i) i 0 items (pushed st1)
                    else object_items rt items (pushed st1)) of
                Inl e \<Rightarrow> Inl e
              | Inr ps \<Rightarrow> fetch_loop rt clock (Suc i) results (st1\<lparr>pushed := ps\<rparr>)))"

datatype fetched = Points "point list" | WithDebug debug_info "point list"

fun fetched_points :: "fetched \<Rightarrow> point list" where
  "fetched_points (Points ps) = ps"
| "fetched_points (WithDebug d ps) = ps"

fun fetched_debug :: "fetched \<Rightarrow> debug_info option" where
  "fetched_debug (Points ps) = None"
| "fetched_debug (WithDebug d ps) = Some d"

text \<open>
  \<^verbatim>\<open>fetchWindborne24h(debug)\<close>, given what \<^verbatim>\<open>Promise.allSettled\<close> resolved to: one
  result for each of the 24 hourly files, in the order of the hours.
\<close>

definition fetchWindborne24h :: "runtime \<Rightarrow> (nat \<Rightarrow> nat \<Rightarrow> int) \<Rightarrow> bool \<Rightarrow> (exn + jv) list \<Rightarrow> exn + fetched" where
  "fetchWindborne24h rt clock debug results =
     (case fetch_loop rt clock 0 results \<lparr>raw = 0, ok = 0, bad = 0, pushed = []\<rparr> of
        Inl e \<Rightarrow> Inl e
      | Inr st \<Rightarrow>
          (let deduped = dedup rt (pushed st)
           in if debug
              then Inr (WithDebug \<lparr>files_ok = ok st, files_failed = bad st, raw_records = raw st,
                                   normalized = length deduped, unique_points = length deduped\<rparr> deduped)
              else Inr (Points deduped)))"

text \<open>
  What the loop does with the body of one fulfilled bucket, on its own: the points it
  pushes, or the exception that ends the fetch.
\<close>

definition bucket_points :: "runtime \<Rightarrow> (nat \<Rightarrow> nat \<Rightarrow> int) \<Rightarrow> nat \<Rightarrow> jv \<Rightarrow> exn + point list" where
  "bucket_points rt clock i body =
     (let items = explodeBodyToRecords rt body
      in if (case items of [] \<Rightarrow> False | x # xs \<Rightarrow> isArray x)
         then tuple_items rt (clock i) i 0 items []
         else object_items rt items [])"

text \<open>
  The points of all fulfilled buckets in the order of the loop, the test that no
  normalizer throws on any of them, and the number of records extracted.
\<close>

fun settled_points :: "runtime \<Rightarrow> (nat \<Rightarrow> nat \<Rightarrow> int) \<Rightarrow> nat \<Rightarrow> (exn + jv) list \<Rightarrow> point list" where
  "settled_points rt clock i [] = []"
| "settled_points rt clock i (r # results) =
     (case r of
        Inl e \<Rightarrow> []
      | Inr body \<Rightarrow> (case bucket_points rt clock i body of Inl e \<Rightarrow> [] | Inr ps \<Rightarrow> ps))
     @ settled_points rt clock (Suc i) results"

fun no_throw :: "runtime \<Rightarrow> (nat \<Rightarrow> nat \<Rightarrow> int) \<Rightarrow> nat \<Rightarrow> (exn + jv) list \<Rightarrow> bool" where
  "no_throw rt clock i [] = True"
| "no_throw rt clock i (r # results) =
     ((case r of
         Inl e \<Rightarrow> True
       | Inr body \<Rightarrow> (case bucket_points rt clock i body of Inl e \<Rightarrow> False | Inr ps \<Rightarrow> True))
      \<and> no_throw rt clock (Suc i) results)"

definition raw_count :: "runtime \<Rightarrow> (exn + jv) list \<Rightarrow> nat" where
  "raw_count rt results =
     sum_list (map (\<lambda>r. case r of Inl e \<Rightarrow> 0 | Inr body \<Rightarrow> length (explodeBodyToRecords rt body)) results)"

section \<open>Enrichment\<close>

record wpoint = point +
  wind :: jv

record air_info =
  pm25 :: "jv option"
  unit :: "jv option"
  lastUpdated :: "jv option"

record epoint = wpoint +
  air :: "air_info option"

text \<open>
  \<^verbatim>\<open>v[k]\<close> for a value that is not \<^verbatim>\<open>null\<close>, and \<^verbatim>\<open>a?.[k]\<close> for the result of a read.
  The keys read this way name no inherited property of an array or a string.
\<close>

definition get_prop :: "jv \<Rightarrow> string \<Rightarrow> jv option" where
  "get_prop v k =
     (case v of
        JObj kvs \<Rightarrow> obj_get kvs k
      | JArr xs \<Rightarrow> (case array_index k of None \<Rightarrow> None | Some i \<Rightarrow> elem xs i)
      | JStr s \<Rightarrow> (case array_index k of None \<Rightarrow> None
                   | Some i \<Rightarrow> if i < length s then Some (JStr [s ! i]) else None)
      | _ \<Rightarrow> None)"

definition opt_prop :: "jv option \<Rightarrow> string \<Rightarrow> jv option" where
  "opt_prop a k = (case a of None \<Rightarrow> None | Some v \<Rightarrow> if v = JNull then None else get_prop v k)"

text \<open>
  \<^verbatim>\<open>withWind(p)\<close>, given how the request settled: the response body, or a failure that
  the \<^verbatim>\<open>catch\<close> absorbs.
\<close>

definition withWind :: "exn + jv \<Rightarrow> point \<Rightarrow> wpoint" where
  "withWind res p =
     \<lparr>id_p = id_p p, ts = ts p, iso = iso p, lat = lat p, lon = lon p, alt = alt p,
      wind = (case res of
                Inl e \<Rightarrow> JNull
              | Inr data \<Rightarrow> (case opt_prop (Some data) ''current'' of None \<Rightarrow> JNull | Some w \<Rightarrow> w))\<rparr>"

text \<open>
  \<^verbatim>\<open>measurements.find(x => x.parameter === 'pm25')\<close> on an array: reading a property of
  \<^verbatim>\<open>null\<close> throws.
\<close>

fun find_pm25 :: "jv list \<Rightarrow> exn + jv option" where
  "find_pm25 [] = Inr None"
| "find_pm25 (x # xs) =
     (if x = JNull then Inl TypeError
      else if get_prop x ''parameter'' = Some (JStr ''pm25'') then Inr (Some x)
      else find_pm25 xs)"

text \<open>
  \<^verbatim>\<open>data?.results?.[0]?.measurements?.find(...)\<close>: calling \<^verbatim>\<open>find\<close> on a value that is
  no array throws.
\<close>

definition pm25_measurement :: "jv \<Rightarrow> exn + jv option" where
  "pm25_measurement data =
     (case opt_prop (opt_prop (opt_prop (Some data) ''results'') ''0'') ''measurements'' of
        None \<Rightarrow> Inr None
      | Some ms \<Rightarrow>
          (case ms of
             JNull \<Rightarrow> Inr None
           | JArr xs \<Rightarrow> find_pm25 xs
           | _ \<Rightarrow> Inl TypeError))"

definition withAir :: "exn + jv \<Rightarrow> wpoint \<Rightarrow> epoint" where
  "withAir res p =
     \<lparr>id_p = id_p p, ts = ts p, iso = iso p, lat = lat p, lon = lon p, alt = alt p,
      wind = wind p,
      air = (case res of
               Inl e \<Rightarrow> None
             | Inr data \<Rightarrow>
                 (case pm25_measurement data of
                    Inl e \<Rightarrow> None
                  | Inr None \<Rightarrow> None
                  | Inr (Some m) \<Rightarrow>
                      Some \<lparr>pm25 = get_prop m ''value'', unit = get_prop m ''unit'',
                            lastUpdated = get_prop m ''lastUpdated''\<rparr>))\<rparr>"

definition BATCH :: nat where
  "BATCH = 25"

text \<open>
  The loop of \<^verbatim>\<open>enrich(points)\<close>.  \<open>W k\<close> and \<open>A k\<close> are how the wind request and the
  air request for the point at position \<open>k\<close> of \<open>points\<close> settle.
\<close>

function enrich_from :: "(nat \<Rightarrow> exn + jv) \<Rightarrow> (nat \<Rightarrow> exn + jv) \<Rightarrow> point list \<Rightarrow> nat \<Rightarrow> epoint list \<Rightarrow> epoint list" where
  "enrich_from W A points i out =
     (if i < length points then
        (let batch = take BATCH (drop i points);
             enriched = map (\<lambda>(j, p). withAir (A (i + j)) (withWind (W (i + j)) p)) (enumerate 0 batch)
         in enrich_from W A points (i + BATCH) (out @ enriched))
      else out)"
  by pat_completeness auto
termination
  by (relation "measure (\<lambda>(W, A, points, i, out). length points - i)") (auto simp: BATCH_def)

declare enrich_from.simps [simp del]

definition enrich :: "(nat \<Rightarrow> exn + jv) \<Rightarrow> (nat \<Rightarrow> exn + jv) \<Rightarrow> point list \<Rightarrow> epoint list" where
  "enrich W A points = enrich_from W A points 0 []"

text \<open>The point the loop produces for the pair of a position and the point there.\<close>

definition enrich_one :: "(nat \<Rightarrow> exn + jv) \<Rightarrow> (nat \<Rightarrow> exn + jv) \<Rightarrow> nat \<times> point \<Rightarrow> epoint" where
  "enrich_one W A kp = withAir (A (fst kp)) (withWind (W (fst kp)) (snd kp))"

section \<open>Cache, warm cycle and query\<close>

datatype payload = Plain "point list" | Enriched "epoint list"

text \<open>
  \<^verbatim>\<open>const ENABLE_ENRICH = process.env.ENRICH === '1'\<close>, for the value of the environment
  variable (\<open>None\<close> when it is not set).
\<close>

definition ENABLE_ENRICH :: "string option \<Rightarrow> bool" where
  "ENABLE_ENRICH env = (env = Some ''1'')"

text \<open>\<^verbatim>\<open>let cache = { time: 0, points: null }\<close>.\<close>

record cache =
  time :: int
  points :: "payload option"

definition CACHE_MS :: int where
  "CACHE_MS = 5 * 60 * 1000"

text \<open>
  One run of \<^verbatim>\<open>warm()\<close> on the cache \<open>c\<close>.  \<open>enabled\<close> is \<^verbatim>\<open>ENABLE_ENRICH\<close>; \<open>now\<close> is the
  reading of \<^verbatim>\<open>Date.now()\<close> when the new entry is built.  The \<^verbatim>\<open>catch\<close> ignores the
  exception of the fetch.
\<close>

definition warm :: "bool \<Rightarrow> runtime \<Rightarrow> (nat \<Rightarrow> nat \<Rightarrow> int) \<Rightarrow> (exn + jv) list \<Rightarrow> int
    \<Rightarrow> (nat \<Rightarrow> exn + jv) \<Rightarrow> (nat \<Rightarrow> exn + jv) \<Rightarrow> cache \<Rightarrow> cache" where
  "warm enabled rt clock results now W A c =
     (case fetchWindborne24h rt clock False results of
        Inl e \<Rightarrow> c
      | Inr result \<Rightarrow>
          (let basePoints = fetched_points result
           in if enabled then \<lparr>time = now, points = Some (Enriched (enrich W A basePoints))\<rparr>
              else \<lparr>time = now, points = Some (Plain basePoints)\<rparr>))"

datatype response =
    Cached payload
  | Fresh payload
  | FreshDebug "debug_info option" bool payload
  | Failed exn

text \<open>
  What one request to \<^verbatim>\<open>/api/data\<close> does: the response, the cache afterwards, and
  whether \<^verbatim>\<open>fetchWindborne24h\<close> was called.
\<close>

record served =
  reply :: response
  cache_after :: cache
  fetch_called :: bool

text \<open>
  The handler of \<^verbatim>\<open>/api/data\<close>.  \<open>qdebug\<close> and \<open>qnoenrich\<close> are
  \<^verbatim>\<open>String(req.query.debug ?? '')\<close> and \<^verbatim>\<open>String(req.query.noenrich ?? '')\<close>.
\<close>

definition getData :: "bool \<Rightarrow> runtime \<Rightarrow> (nat \<Rightarrow> nat \<Rightarrow> int) \<Rightarrow> (exn + jv) list \<Rightarrow> int
    \<Rightarrow> (nat \<Rightarrow> exn + jv) \<Rightarrow> (nat \<Rightarrow> exn + jv) \<Rightarrow> string \<Rightarrow> string \<Rightarrow> cache \<Rightarrow> served" where
  "getData enabled rt clock results now W A qdebug qnoenrich c =
     (let wantDebug = (qdebug = ''1'');
          noEnrich = (qnoenrich = ''1'');
          hit = (if wantDebug then None
                 else if noEnrich then None
                 else if enabled then
                   (case points c of
                      None \<Rightarrow> None
                    | Some ps \<Rightarrow> if now - time c < CACHE_MS then Some ps else None)
                 else None)
      in case hit of
           Some ps \<Rightarrow> \<lparr>reply = Cached ps, cache_after = c, fetch_called = False\<rparr>
         | None \<Rightarrow>
            (case fetchWindborne24h rt clock wantDebug results of
               Inl e \<Rightarrow> \<lparr>reply = Failed e, cache_after = c, fetch_called = True\<rparr>
             | Inr result \<Rightarrow>
                (let basePoints = fetched_points result;
                     wanted = (if noEnrich then False else enabled);
                     finalPoints = (if wanted then Enriched (enrich W A basePoints)
                                    else Plain basePoints);
                     c' = (if wantDebug then c
                           else if wanted then \<lparr>time = now, points = Some finalPoints\<rparr>
                           else c)
                 in \<lparr>reply = (if wantDebug then FreshDebug (fetched_debug result) wanted finalPoints
                              else Fresh finalPoints),
                     cache_after = c', fetch_called = True\<rparr>)))"

text \<open>
  The condition under which the handler looks at the cache and stores into it:
  \<^verbatim>\<open>!wantDebug && !noEnrich && ENABLE_ENRICH\<close>.
\<close>

definition use_cache :: "bool \<Rightarrow> string \<Rightarrow> string \<Rightarrow> bool" where
  "use_cache enabled qdebug qnoenrich = (enabled \<and> qdebug \<noteq> ''1'' \<and> qnoenrich \<noteq> ''1'')"

section \<open>A small runtime\<close>

text \<open>
  An instance of the runtime on which the definitions can be run: it reads no string as a
  number or as JSON, prints the whole part of a non-negative number in decimal, and
  rounds nothing.
\<close>

definition print_whole :: "jsnum \<Rightarrow> string" where
  "print_whole n = (case n of Fin r \<Rightarrow> show_nat (nat \<lfloor>r\<rfloor>) | _ \<Rightarrow> ''NaN'')"

definition small_rt :: runtime where
  "small_rt = \<lparr>str2num = (\<lambda>s. NaN), num2str = print_whole,
               JSON_parse = (\<lambda>s. Inl SyntaxError), Date_parse = (\<lambda>s. NaN),
               iso_fmt = (\<lambda>t. print_whole (Fin t)), round_double = Fin\<rparr>"

text \<open>A point with the given id, timestamp and latitude, to run the definitions on.\<close>

definition pt :: "string \<Rightarrow> rat \<Rightarrow> rat \<Rightarrow> point" where
  "pt i t la = \<lparr>id_p = i, ts = t, iso = [], lat = la, lon = 0, alt = None\<rparr>"

text \<open>
  Sample outcomes of the requests of the enrichment.  The wind request fails for the point
  at position 0 and is answered with \<^verbatim>\<open>{"current": 3}\<close> for the others.  The air request is
  answered for the point at position 0, with one result of two measurements, the second
  for \<^verbatim>\<open>pm25\<close>, and fails for the others.
\<close>

definition sample_wind :: "nat \<Rightarrow> exn + jv" where
  "sample_wind k = (if k = 0 then Inl NetworkError else Inr (JObj [(''current'', JNum (Fin 3))]))"

definition sample_air :: "nat \<Rightarrow> exn + jv" where
  "sample_air k =
     (if k = 0
      then Inr (JObj [(''results'', JArr [JObj [(''measurements'',
                  JArr [JObj [(''parameter'', JStr ''pm10''), (''value'', JNum (Fin 7))],
                        JObj [(''parameter'', JStr ''pm25''), (''value'', JNum (Fin 12)),
                              (''unit'', JStr ''ug'')]])]])])
      else Inl NetworkError)"

text \<open>
  A body of one record in the tuple form, \<^verbatim>\<open>[[10, 20]]\<close>, and the point the fetch makes
  of it in bucket 0 when the clock reads 5.
\<close>

definition tuple_body :: jv where
  "tuple_body = JArr [JArr [JNum (Fin 10), JNum (Fin 20)]]"

definition tuple_point :: point where
  "tuple_point = \<lparr>id_p = ''00-0'', ts = 5, iso = ''5'', lat = 10, lon = 20, alt = None\<rparr>"

text \<open>
  A body of one record whose timestamp, \<open>10^16\<close> ms, is finite and beyond the range of
  dates: \<^verbatim>\<open>[{"id": "a", "t": 1e16, "lat": 0, "lon": 0}]\<close>.
\<close>

definition poisoned :: jv where
  "poisoned = JArr [JObj [(''id'', JStr ''a''), (''t'', JNum (Fin 10000000000000000)),
                          (''lat'', JNum (Fin 0)), (''lon'', JNum (Fin 0))]]"

section \<open>Properties of the record flattener\<close>

lemma map_fst_replace_val: "map fst (replace_val kvs k v) = map fst kvs"
  by (induction kvs) auto

lemma set_insert_index: "set (insert_index i k v kvs) = insert (k, v) (set kvs)"
  by (induction kvs) (auto split: option.splits if_splits)

lemma keys_insert_index: "keys_of (insert_index i k v kvs) = insert k (keys_of kvs)"
  by (simp add: keys_of_def set_insert_index)

lemma keys_define_prop: "keys_of (define_prop kvs k v) = insert k (keys_of kvs)"
proof (cases "has_key kvs k")
  case True
  then show ?thesis
    by (auto simp: define_prop_def keys_of_def map_fst_replace_val has_key_def)
next
  case False
  then show ?thesis
    using keys_insert_index[of _ k v kvs]
    by (auto simp: define_prop_def keys_of_def split: option.splits)
qed

lemma keys_assign_prop:
  "keys_of (assign_prop out k v) = (if k = ''__proto__'' then keys_of out else insert k (keys_of out))"
  by (simp add: assign_prop_def keys_define_prop)

text \<open>What an assignment does to the reads of the mapping.\<close>

lemma get_replace_val:
  "has_key kvs k \<Longrightarrow> obj_get (replace_val kvs k v) x = (if x = k then Some v else obj_get kvs x)"
proof (induction kvs)
  case Nil
  then show ?case by (simp add: has_key_def)
next
  case (Cons a kvs)
  show ?case
  proof (cases "fst a = k")
    case True
    then show ?thesis by (cases a) (simp add: obj_get_def)
  next
    case False
    with Cons.prems have "has_key kvs k" by (simp add: has_key_def)
    from Cons.IH[OF this] False show ?thesis by (cases a) (auto simp: obj_get_def)
  qed
qed

lemma get_insert_index:
  "\<not> has_key kvs k \<Longrightarrow>
   obj_get (insert_index i k v kvs) x = (if x = k then Some v else obj_get kvs x)"
  by (induction kvs) (auto simp: obj_get_def has_key_def split: option.splits)

lemma get_append_new:
  "\<not> has_key kvs k \<Longrightarrow> obj_get (kvs @ [(k, v)]) x = (if x = k then Some v else obj_get kvs x)"
  by (induction kvs) (auto simp: obj_get_def has_key_def)

lemma get_define_prop:
  "obj_get (define_prop kvs k v) x = (if x = k then Some v else obj_get kvs x)"
  by (simp add: define_prop_def get_replace_val get_insert_index get_append_new
        split: option.splits)

lemma obj_get_assign_prop:
  "obj_get (assign_prop out k v) = store_leaf (obj_get out) (k, v)"
  by (rule ext) (simp add: assign_prop_def store_leaf_def get_define_prop)

text \<open>
  The reads of the flat mapping are the reads of \<open>out\<close> after the assignments of the leaves,
  in the order of the walk.
\<close>

lemma flatten_fold:
  "obj_get (flatten v pfx out) = foldl store_leaf (obj_get out) (leaves v pfx)"
  "obj_get (flatten_arr xs i pfx out) = foldl store_leaf (obj_get out) (leaves_arr xs i pfx)"
  "obj_get (flatten_obj kvs pfx out) = foldl store_leaf (obj_get out) (leaves_obj kvs pfx)"
  by (induction v pfx out and xs i pfx out and kvs pfx out rule: flatten_flatten_arr_flatten_obj.induct)
     (simp_all add: obj_get_assign_prop)

lemma keys_flatten:
  "keys_of (flatten v pfx out) = keys_of out \<union> (fst ` set (leaves v pfx) - {''__proto__''})"
  "keys_of (flatten_arr xs i pfx out) = keys_of out \<union> (fst ` set (leaves_arr xs i pfx) - {''__proto__''})"
  "keys_of (flatten_obj kvs pfx out) = keys_of out \<union> (fst ` set (leaves_obj kvs pfx) - {''__proto__''})"
  by (induction v pfx out and xs i pfx out and kvs pfx out rule: flatten_flatten_arr_flatten_obj.induct)
     (auto simp: keys_assign_prop)

text \<open>No call removes a key.\<close>

lemma flatten_mono: "keys_of out \<subseteq> keys_of (flatten v pfx out)"
  by (simp add: keys_flatten)

text \<open>After a sequence of assignments a read gives what the last assignment to the key stored.\<close>

lemma fold_store_get:
  "foldl store_leaf m ls key =
     (if key = ''__proto__'' then m key
      else case find (\<lambda>pl. fst pl = key) (rev ls) of None \<Rightarrow> m key | Some pl \<Rightarrow> Some (snd pl))"
  by (induction ls rule: rev_induct) (auto simp: store_leaf_def)

text \<open>The list of leaves holds the leaves of \<open>leaf_at\<close>, each with its accumulated path.\<close>

lemma leaves_arr_elem:
  "n < length xs \<Longrightarrow>
   set (leaves (xs ! n) (ext_path pfx (show_nat (i + n)))) \<subseteq> set (leaves_arr xs i pfx)"
proof (induction xs arbitrary: i n)
  case Nil
  then show ?case by simp
next
  case (Cons x xs)
  show ?case
  proof (cases n)
    case 0
    then show ?thesis by simp
  next
    case (Suc m)
    with Cons.prems have "m < length xs" by simp
    from Cons.IH[OF this, of "Suc i"] Suc show ?thesis by auto
  qed
qed

lemma leaves_obj_elem:
  "(k, v) \<in> set kvs \<Longrightarrow> set (leaves v (ext_path pfx k)) \<subseteq> set (leaves_obj kvs pfx)"
  by (induction kvs) auto

lemma leaf_listed:
  "leaf_at v segs l \<Longrightarrow> (foldl ext_path pfx segs, l) \<in> set (leaves v pfx)"
proof (induction arbitrary: pfx rule: leaf_at.induct)
  case (here v)
  then show ?case by (cases v) simp_all
next
  case (in_arr i xs segs l)
  from leaves_arr_elem[OF in_arr.hyps(1), of pfx 0] in_arr.IH[of "ext_path pfx (show_nat i)"]
  show ?case by auto
next
  case (in_obj k v kvs segs l)
  from leaves_obj_elem[OF in_obj.hyps(1), of pfx] in_obj.IH[of "ext_path pfx k"]
  show ?case by auto
qed

lemma listed_is_leaf:
  "(p, l) \<in> set (leaves v pfx) \<Longrightarrow> \<exists>segs. leaf_at v segs l \<and> foldl ext_path pfx segs = p"
  "(p, l) \<in> set (leaves_arr xs i pfx) \<Longrightarrow>
     \<exists>n segs. n < length xs \<and> leaf_at (xs ! n) segs l
        \<and> foldl ext_path (ext_path pfx (show_nat (i + n))) segs = p"
  "(p, l) \<in> set (leaves_obj kvs pfx) \<Longrightarrow>
     \<exists>k w segs. (k, w) \<in> set kvs \<and> leaf_at w segs l
        \<and> foldl ext_path (ext_path pfx k) segs = p"
proof (induction v pfx and xs i pfx and kvs pfx rule: leaves_leaves_arr_leaves_obj.induct)
  case (1 pfx)
  then show ?case by simp
next
  case (2 xs pfx)
  then obtain n segs where n: "n < length xs" "leaf_at (xs ! n) segs l"
      "foldl ext_path (ext_path pfx (show_nat (0 + n))) segs = p"
    by fastforce
  then have "leaf_at (JArr xs) (show_nat n # segs) l"
    by (simp add: leaf_at.in_arr)
  moreover have "foldl ext_path pfx (show_nat n # segs) = p"
    using n by simp
  ultimately show ?case by blast
next
  case (3 kvs pfx)
  then obtain k w segs where k: "(k, w) \<in> set kvs" "leaf_at w segs l"
      "foldl ext_path (ext_path pfx k) segs = p"
    by fastforce
  then have "leaf_at (JObj kvs) (k # segs) l"
    by (simp add: leaf_at.in_obj)
  moreover have "foldl ext_path pfx (k # segs) = p"
    using k by simp
  ultimately show ?case by blast
next
  case (4 b pfx)
  have "leaf_at (JBool b) [] (JBool b)" by (simp add: leaf_at.here)
  with 4 show ?case by (intro exI[of _ "[]"]) simp
next
  case (5 n pfx)
  have "leaf_at (JNum n) [] (JNum n)" by (simp add: leaf_at.here)
  with 5 show ?case by (intro exI[of _ "[]"]) simp
next
  case (6 s pfx)
  have "leaf_at (JStr s) [] (JStr s)" by (simp add: leaf_at.here)
  with 6 show ?case by (intro exI[of _ "[]"]) simp
next
  case (7 i pfx)
  then show ?case by simp
next
  case (8 x xs i pfx)
  from 8(3) consider "(p, l) \<in> set (leaves x (ext_path pfx (show_nat i)))"
    | "(p, l) \<in> set (leaves_arr xs (Suc i) pfx)"
    by auto
  then show ?case
  proof cases
    case 1
    from 8(1)[OF 1] obtain segs where "leaf_at x segs l"
        "foldl ext_path (ext_path pfx (show_nat i)) segs = p"
      by blast
    then have "0 < length (x # xs) \<and> leaf_at ((x # xs) ! 0) segs l
          \<and> foldl ext_path (ext_path pfx (show_nat (i + 0))) segs = p"
      by simp
    then show ?thesis by blast
  next
    case 2
    from 8(2)[OF 2] obtain n segs where "n < length xs" "leaf_at (xs ! n) segs l"
        "foldl ext_path (ext_path pfx (show_nat (Suc i + n))) segs = p"
      by blast
    then have "Suc n < length (x # xs) \<and> leaf_at ((x # xs) ! Suc n) segs l
          \<and> foldl ext_path (ext_path pfx (show_nat (i + Suc n))) segs = p"
      by simp
    then show ?thesis by blast
  qed
next
  case (9 pfx)
  then show ?case by simp
next
  case (10 k v kvs pfx)
  from 10(3) consider "(p, l) \<in> set (leaves v (ext_path pfx k))"
    | "(p, l) \<in> set (leaves_obj kvs pfx)"
    by auto
  then show ?case
  proof cases
    case 1
    from 10(1)[OF 1] obtain segs where "leaf_at v segs l"
        "foldl ext_path (ext_path pfx k) segs = p"
      by blast
    then have "(k, v) \<in> set ((k, v) # kvs) \<and> leaf_at v segs l
          \<and> foldl ext_path (ext_path pfx k) segs = p"
      by simp
    then show ?thesis by blast
  next
    case 2
    from 10(2)[OF 2] obtain k' w segs where "(k', w) \<in> set kvs" "leaf_at w segs l"
        "foldl ext_path (ext_path pfx k') segs = p"
      by blast
    then have "(k', w) \<in> set ((k, v) # kvs) \<and> leaf_at w segs l
          \<and> foldl ext_path (ext_path pfx k') segs = p"
      by simp
    then show ?thesis by blast
  qed
qed

lemmas char_simps = char_of_def bit_Suc_0_iff digit_char_def show_nat.simps

lemmas store_simps = assign_prop_def define_prop_def has_key_def ext_path_def array_index_def
  is_digit_def obj_get_def get_nonnull_def nullish_or_def

lemmas key_simps = KEY_id_def KEY_time_def KEY_lat_def KEY_lon_def KEY_alt_def
  toLowerCase_def lower_char_def

text \<open>
  \<^bold>\<open>C3\<close>, as the code has it.  A leaf is a scalar that is not \<^verbatim>\<open>null\<close>; \<open>leaves v pfx\<close>
  lists the leaves of \<open>v\<close> with their accumulated paths in the order of the walk.
  \<^item> The keys of \<open>flatten v pfx out\<close> are the keys \<open>out\<close> had and the accumulated paths of the
    leaves of \<open>v\<close>, the path \<^verbatim>\<open>__proto__\<close> apart, which is never created.
  \<^item> The value read at a key is the last leaf of the walk with that path, and what \<open>out\<close>
    held when there is none: two leaves of one path leave the later one.
  \<^item> A \<^verbatim>\<open>null\<close> is no leaf and the call on it returns \<open>out\<close> as it is: it adds no key and
    changes no value.
  \<^item> A root scalar that is not \<^verbatim>\<open>null\<close> is recorded under the empty key.
\<close>

theorem flatten_spec:
  "(key \<in> keys_of (flatten v pfx out) \<longleftrightarrow>
      key \<in> keys_of out \<or>
      (key \<noteq> ''__proto__'' \<and> (\<exists>segs l. leaf_at v segs l \<and> foldl ext_path pfx segs = key)))
   \<and> obj_get (flatten v pfx out) key =
       (if key = ''__proto__'' then obj_get out key
        else case find (\<lambda>pl. fst pl = key) (rev (leaves v pfx)) of
               None \<Rightarrow> obj_get out key
             | Some pl \<Rightarrow> Some (snd pl))
   \<and> ((key, l) \<in> set (leaves v pfx) \<longleftrightarrow> (\<exists>segs. leaf_at v segs l \<and> foldl ext_path pfx segs = key))
   \<and> leaves JNull pfx = [] \<and> flatten JNull pfx out = out
   \<and> (isScalar v \<and> v \<noteq> JNull \<longrightarrow> flatten v [] [] = [([], v)])"
proof (intro conjI impI)
  have listed: "(k, x) \<in> set (leaves v pfx) \<longleftrightarrow> (\<exists>segs. leaf_at v segs x \<and> foldl ext_path pfx segs = k)"
    for k x
    using listed_is_leaf(1)[of k x v pfx] leaf_listed[of v _ x pfx] by blast
  show "(key, l) \<in> set (leaves v pfx) \<longleftrightarrow> (\<exists>segs. leaf_at v segs l \<and> foldl ext_path pfx segs = key)"
    by (rule listed)
  have "key \<in> fst ` set (leaves v pfx) \<longleftrightarrow> (\<exists>segs x. leaf_at v segs x \<and> foldl ext_path pfx segs = key)"
    using listed by force
  then show "key \<in> keys_of (flatten v pfx out) \<longleftrightarrow>
      key \<in> keys_of out \<or>
      (key \<noteq> ''__proto__'' \<and> (\<exists>segs l. leaf_at v segs l \<and> foldl ext_path pfx segs = key))"
    by (simp add: keys_flatten) blast
next
  show "obj_get (flatten v pfx out) key =
       (if key = ''__proto__'' then obj_get out key
        else case find (\<lambda>pl. fst pl = key) (rev (leaves v pfx)) of
               None \<Rightarrow> obj_get out key
             | Some pl \<Rightarrow> Some (snd pl))"
    by (simp only: flatten_fold fold_store_get)
next
  show "leaves JNull pfx = []" by simp
next
  show "flatten JNull pfx out = out" by simp
next
  assume "isScalar v \<and> v \<noteq> JNull"
  then show "flatten v [] [] = [([], v)]"
    by (cases v) (simp_all add: store_simps)
qed

theorem flatten_spec_witness:
  "obj_get (flatten (JObj [(''a.b'', JNum (Fin 5)), (''a'', JObj [(''b'', JNum (Fin 6))]),
                           (''c'', JNull)]) [] []) ''a.b'' = Some (JNum (Fin 6))
   \<and> obj_get (flatten (JObj [(''a.b'', JNum (Fin 5)), (''a'', JObj [(''b'', JNum (Fin 6))]),
                           (''c'', JNull)]) [] []) ''c'' = None
   \<and> ''c'' \<notin> keys_of (flatten (JObj [(''a.b'', JNum (Fin 5)), (''a'', JObj [(''b'', JNum (Fin 6))]),
                           (''c'', JNull)]) [] [])
   \<and> obj_get (flatten (JObj [(''d'', JArr [JNull, JBool True])]) [] [(''d.0'', JStr ''old'')]) ''d.1''
       = Some (JBool True)
   \<and> obj_get (flatten (JObj [(''d'', JArr [JNull, JBool True])]) [] [(''d.0'', JStr ''old'')]) ''d.0''
       = Some (JStr ''old'')
   \<and> flatten (JStr ''x'') [] [] = [([], JStr ''x'')]"
proof -
  let ?r = "JObj [(''a.b'', JNum (Fin 5)), (''a'', JObj [(''b'', JNum (Fin 6))]), (''c'', JNull)]"
  let ?d = "JObj [(''d'', JArr [JNull, JBool True])]"
  have l: "leaves ?r [] = [(''a.b'', JNum (Fin 5)), (''a.b'', JNum (Fin 6))]"
    "leaves ?d [] = [(''d.1'', JBool True)]"
    by (simp_all add: ext_path_def char_simps)
  have a: "obj_get (flatten ?r [] []) ''a.b'' = Some (JNum (Fin 6))"
    using flatten_spec[of "''a.b''" ?r "[]" "[]"] l by simp
  have b: "obj_get (flatten ?r [] []) ''c'' = None"
    using flatten_spec[of "''c''" ?r "[]" "[]"] l by (simp add: obj_get_def)
  have nl: "\<not> (\<exists>segs. leaf_at ?r segs x \<and> foldl ext_path [] segs = ''c'')" for x
    using flatten_spec[of "''c''" ?r "[]" "[]" x, THEN conjunct2, THEN conjunct2, THEN conjunct1] l
    by simp
  have k0: "''c'' \<notin> keys_of []"
    by (simp add: keys_of_def)
  have c: "''c'' \<notin> keys_of (flatten ?r [] [])"
    using flatten_spec[of "''c''" ?r "[]" "[]", THEN conjunct1] nl k0
    by blast
  have d: "obj_get (flatten ?d [] [(''d.0'', JStr ''old'')]) ''d.1'' = Some (JBool True)"
    using flatten_spec[of "''d.1''" ?d "[]" "[(''d.0'', JStr ''old'')]"] l by simp
  have e: "obj_get (flatten ?d [] [(''d.0'', JStr ''old'')]) ''d.0'' = Some (JStr ''old'')"
    using flatten_spec[of "''d.0''" ?d "[]" "[(''d.0'', JStr ''old'')]"] l by (simp add: obj_get_def)
  have f: "flatten (JStr ''x'') [] [] = [([], JStr ''x'')]"
    using flatten_spec[of "[]" "JStr ''x''" "[]" "[]"] by simp
  from a b c d e f show ?thesis by (intro conjI)
qed

text \<open>
  The sentence of the specification that a \<^verbatim>\<open>null\<close> leaf is recorded fails: the field
  \<^verbatim>\<open>a\<close> of \<^verbatim>\<open>{a: null}\<close> is not a key of the flat mapping.
\<close>

theorem flatten_null_field_counterexample:
  "''a'' \<notin> keys_of (flatten (JObj [(''a'', JNull)]) [] [])"
  by (simp add: keys_of_def)

section \<open>Properties of the record normalizer\<close>

lemma times1000_epoch: "times1000 rt 1700000000 = Fin 1700000000000"
  by (simp add: times1000_def)

text \<open>What the normalizers emit is within the bounds of a latitude and a longitude.\<close>

lemma normalizeObject_bounds:
  assumes "normalizeObject rt rec = Inr (Some p)"
  shows "\<bar>lat p\<bar> \<le> 90 \<and> \<bar>lon p\<bar> \<le> 180"
  using assms unfolding normalizeObject_def Let_def
  by (auto split: if_splits option.splits jsnum.splits sum.splits)

lemma normalizeTuple_bounds:
  assumes "normalizeTuple rt now rec hour idx = Inr (Some p)"
  shows "\<bar>lat p\<bar> \<le> 90 \<and> \<bar>lon p\<bar> \<le> 180"
  using assms unfolding normalizeTuple_def Let_def
  by (auto split: if_splits jv.splits jsnum.splits sum.splits)

text \<open>The flattener stores scalars only.\<close>

lemma scalar_replace_val:
  "scalar_values kvs \<Longrightarrow> isScalar v \<Longrightarrow> scalar_values (replace_val kvs k v)"
  by (induction kvs) (auto simp: scalar_values_def)

lemma scalar_insert_index:
  "scalar_values kvs \<Longrightarrow> isScalar v \<Longrightarrow> scalar_values (insert_index i k v kvs)"
  by (induction kvs) (auto simp: scalar_values_def split: option.splits)

lemma scalar_assign_prop:
  "scalar_values out \<Longrightarrow> isScalar v \<Longrightarrow> scalar_values (assign_prop out k v)"
  using scalar_replace_val[of out v k] scalar_insert_index[of out v _ k]
  by (auto simp: assign_prop_def define_prop_def scalar_values_def split: option.splits)

lemma flatten_scalar_values:
  "scalar_values out \<Longrightarrow> scalar_values (flatten v pfx out)"
  "scalar_values out \<Longrightarrow> scalar_values (flatten_arr xs i pfx out)"
  "scalar_values out \<Longrightarrow> scalar_values (flatten_obj kvs pfx out)"
  by (induction v pfx out and xs i pfx out and kvs pfx out rule: flatten_flatten_arr_flatten_obj.induct)
     (simp_all add: scalar_assign_prop)

lemma scalar_values_get:
  "scalar_values kvs \<Longrightarrow> obj_get kvs k = Some v \<Longrightarrow> isScalar v"
  by (induction kvs) (auto simp: scalar_values_def obj_get_def split: if_splits)

lemma findByKeys_scalar: "scalar_values flat \<Longrightarrow> isScalar (findByKeys flat ks)"
proof (induction ks)
  case Nil
  show ?case by simp
next
  case (Cons k ks)
  have g: "isScalar v" if "get_nonnull flat x = Some v" for x v
    using that scalar_values_get[OF Cons.prems, of x v]
    by (auto simp: get_nonnull_def split: option.splits if_splits)
  show ?case
    using Cons.IH[OF Cons.prems] g
    by (auto split: option.splits)
qed

text \<open>The conversions of a scalar throw nothing.\<close>

lemma ToString_scalar: "isScalar v \<Longrightarrow> \<exists>s. ToString rt v = Inr s"
  by (cases v) simp_all

lemma ToNumber_scalar: "isScalar v \<Longrightarrow> \<exists>n. ToNumber rt (Some v) = Inr n"
  by (cases v) simp_all

lemma num_pair_scalar: "(\<And>w. v = Some w \<Longrightarrow> isScalar w) \<Longrightarrow> num_pair rt v = Inr None"
  by (cases v; cases "the v") (auto simp: num_pair_def)

text \<open>
  A flat mapping holds scalars only, so the test \<^verbatim>\<open>Array.isArray(g)\<close> of the geometry
  resolver fails on the flat mapping of every record.
\<close>

lemma geojson_branch_dead:
  "num_pair rt (nullish_or (obj_get (flatten rec [] []) a)
      (nullish_or (obj_get (flatten rec [] []) b) (obj_get (flatten rec [] []) c))) = Inr None"
proof (rule num_pair_scalar)
  fix w
  have sv: "scalar_values (flatten rec [] [])"
    by (rule flatten_scalar_values) (simp add: scalar_values_def)
  assume "nullish_or (obj_get (flatten rec [] []) a)
      (nullish_or (obj_get (flatten rec [] []) b) (obj_get (flatten rec [] []) c)) = Some w"
  then have "obj_get (flatten rec [] []) a = Some w \<or> obj_get (flatten rec [] []) b = Some w
      \<or> obj_get (flatten rec [] []) c = Some w"
    by (auto simp: nullish_or_def split: option.splits if_splits)
  then show "isScalar w" using scalar_values_get[OF sv] by blast
qed

text \<open>
  For every record whose id and timestamp resolve and whose latitude and longitude keys
  do not, the point emitted has latitude 0 and longitude 0.
\<close>

lemma missing_coordinates_become_zero:
  assumes "isArray rec \<or> isPlainObject rec"
    and "nullish_or (Some (findByKeys (flatten rec [] []) KEY_id)) (obj_get (flatten rec [] []) ''__key'') = Some i"
    and "i \<noteq> JNull"
    and "toMs rt (Some (findByKeys (flatten rec [] []) KEY_time)) = Inr (Fin t)"
    and "\<bar>t\<bar> \<le> 8640000000000000"
    and "findByKeys (flatten rec [] []) KEY_lat = JNull"
    and "findByKeys (flatten rec [] []) KEY_lon = JNull"
  shows "\<exists>s a. normalizeObject rt rec =
           Inr (Some \<lparr>id_p = s, ts = t, iso = iso_fmt rt t, lat = 0, lon = 0, alt = a\<rparr>)"
proof -
  have sv: "scalar_values (flatten rec [] [])"
    by (rule flatten_scalar_values) (simp add: scalar_values_def)
  from assms(2) have "i = findByKeys (flatten rec [] []) KEY_id \<or> obj_get (flatten rec [] []) ''__key'' = Some i"
    by (auto simp: nullish_or_def split: if_splits)
  then have "isScalar i"
    using findByKeys_scalar[OF sv, of KEY_id] scalar_values_get[OF sv] by auto
  then obtain s where s: "ToString rt i = Inr s"
    using ToString_scalar by blast
  obtain n where n: "ToNumber rt (Some (findByKeys (flatten rec [] []) KEY_alt)) = Inr n"
    using ToNumber_scalar[OF findByKeys_scalar[OF sv]] by blast
  show ?thesis
    using assms s n by (simp add: normalizeObject_def Let_def toISOString_def)
qed

lemma flatten_id_t:
  "flatten (JObj [(''id'', JStr ''a''), (''t'', JNum (Fin 1700000000))]) [] [] =
     [(''id'', JStr ''a''), (''t'', JNum (Fin 1700000000))]"
  by (simp add: store_simps)

lemma flatten_geometry:
  "flatten (JObj [(''id'', JStr ''a''), (''t'', JNum (Fin 1700000000)),
        (''geometry'', JObj [(''coordinates'', JArr [JNum (Fin 10), JNum (Fin 50)])])]) [] []
   = [(''id'', JStr ''a''), (''t'', JNum (Fin 1700000000)),
      (''geometry.coordinates.0'', JNum (Fin 10)), (''geometry.coordinates.1'', JNum (Fin 50))]"
  by (simp add: store_simps char_simps)

text \<open>
  \<^bold>\<open>C1\<close>, at the record \<^verbatim>\<open>{id: "a", t: 1700000000}\<close>.  No latitude or longitude key
  resolves and there is no geometry, so \<open>findByKeys\<close> returns \<^verbatim>\<open>null\<close> for both; but
  \<^verbatim>\<open>+null\<close> is \<open>0\<close>, which is finite and within bounds: the record is not rejected, and a
  point at latitude 0 and longitude 0 (and altitude 0) is emitted, for every runtime.
\<close>

theorem normalizeObject_without_coordinates:
  "normalizeObject rt (JObj [(''id'', JStr ''a''), (''t'', JNum (Fin 1700000000))]) =
     Inr (Some \<lparr>id_p = ''a'', ts = 1700000000000, iso = iso_fmt rt 1700000000000,
                lat = 0, lon = 0, alt = Some 0\<rparr>)"
  unfolding normalizeObject_def flatten_id_t
  by (simp add: key_simps store_simps toMs_def times1000_epoch toISOString_def finite_or_null_def)

text \<open>
  \<^bold>\<open>C2\<close>, at the record \<^verbatim>\<open>{id: "a", t: 1700000000, geometry: {coordinates: [10, 50]}}\<close>.
  The point emitted has latitude 0 and longitude 0, not 50 and 10: the geometry is never
  consulted, the two coordinates being the finite \<^verbatim>\<open>+null\<close>.  And the geometry resolver
  itself finds nothing in the flat mapping of the record and returns \<^verbatim>\<open>null\<close>: \<open>flatten\<close>
  has dissolved the array into the keys \<^verbatim>\<open>geometry.coordinates.0\<close> and
  \<^verbatim>\<open>geometry.coordinates.1\<close>, so the read of \<^verbatim>\<open>geometry.coordinates\<close> is \<^verbatim>\<open>undefined\<close>.
\<close>

theorem normalizeObject_geometry_record:
  "normalizeObject rt (JObj [(''id'', JStr ''a''), (''t'', JNum (Fin 1700000000)),
        (''geometry'', JObj [(''coordinates'', JArr [JNum (Fin 10), JNum (Fin 50)])])])
     = Inr (Some \<lparr>id_p = ''a'', ts = 1700000000000, iso = iso_fmt rt 1700000000000,
                  lat = 0, lon = 0, alt = Some 0\<rparr>)
   \<and> latLonFromGeo rt (flatten (JObj [(''id'', JStr ''a''), (''t'', JNum (Fin 1700000000)),
        (''geometry'', JObj [(''coordinates'', JArr [JNum (Fin 10), JNum (Fin 50)])])]) [] []) = Inr None"
  unfolding normalizeObject_def flatten_geometry
  by (simp add: key_simps store_simps toMs_def times1000_epoch toISOString_def finite_or_null_def
       latLonFromGeo_def num_pair_def comma_pair_def)

lemma padStart2_len: "length (show_nat hour) \<le> 2 \<Longrightarrow> length (padStart2 (show_nat hour)) = 2"
  by (simp add: padStart2_def)

lemma show_nat_len: "hour < 100 \<Longrightarrow> length (show_nat hour) \<le> 2"
  by (simp add: show_nat.simps[of hour] show_nat.simps[of "hour div 10"])

text \<open>
  What \<open>normalizeTuple\<close> returns on an array of at least two elements when the three
  conversions \<^verbatim>\<open>+rec[0]\<close>, \<^verbatim>\<open>+rec[1]\<close> and \<^verbatim>\<open>+rec[2]\<close> throw nothing and the clock shifted
  by \<open>hour\<close> hours is a valid date: \<^verbatim>\<open>null\<close> unless the first two results are finite and
  within the bounds, and otherwise the point with the padded hour, a dash and the index as
  id, the shifted clock as timestamp and the third result, when finite, as altitude.
\<close>

lemma normalizeTuple_returns:
  assumes clock: "\<bar>of_int now - of_nat hour * 3600000\<bar> \<le> (8640000000000000 :: rat)"
    and len: "2 \<le> length xs"
    and conv: "ToNumber rt (elem xs 0) = Inr la0" "ToNumber rt (elem xs 1) = Inr lo0"
      "ToNumber rt (elem xs 2) = Inr a0"
  shows "normalizeTuple rt now (JArr xs) hour idx =
     (case la0 of
        Fin la \<Rightarrow>
          (case lo0 of
             Fin lo \<Rightarrow>
               if \<bar>la\<bar> \<le> 90 \<and> \<bar>lo\<bar> \<le> 180
               then Inr (Some \<lparr>id_p = padStart2 (show_nat hour) @ ''-'' @ show_nat idx,
                               ts = of_int now - of_nat hour * 3600000,
                               iso = iso_fmt rt (of_int now - of_nat hour * 3600000),
                               lat = la, lon = lo, alt = finite_or_null a0\<rparr>)
               else Inr None
           | _ \<Rightarrow> Inr None)
      | _ \<Rightarrow> Inr None)"
  using clock len conv
  by (auto simp: normalizeTuple_def toISOString_def Let_def mult.commute split: jsnum.splits)

lemma normalizeTuple_not_array: "\<not> isArray rec \<Longrightarrow> normalizeTuple rt now rec hour idx = Inr None"
  by (cases rec) (simp_all add: normalizeTuple_def)

lemma normalizeTuple_short: "length xs < 2 \<Longrightarrow> normalizeTuple rt now (JArr xs) hour idx = Inr None"
  by (simp add: normalizeTuple_def)

text \<open>
  \<^bold>\<open>C5\<close>, at three tuples, for every runtime.
  \<^item> \<^verbatim>\<open>[1, 2, null]\<close>, hour 3, index 0, clock \<open>1700000000000\<close>: the third element is no
    number, yet the altitude of the point is \<open>0\<close>, not absent, \<^verbatim>\<open>+null\<close> being \<open>0\<close>.
  \<^item> \<^verbatim>\<open>[null, null]\<close>: the first two elements are no numbers, yet the tuple is not
    rejected: the point at latitude 0 and longitude 0 is emitted.
  \<^item> \<^verbatim>\<open>[{"toString": 1}, 2]\<close>: the conversion \<^verbatim>\<open>+rec[0]\<close> throws a \<^verbatim>\<open>TypeError\<close>; the call
    returns neither \<^verbatim>\<open>null\<close> nor a point.
\<close>

theorem normalizeTuple_null_elements:
  "normalizeTuple rt 1700000000000 (JArr [JNum (Fin 1), JNum (Fin 2), JNull]) 3 0 =
     Inr (Some \<lparr>id_p = ''03-0'', ts = 1699989200000, iso = iso_fmt rt 1699989200000,
                lat = 1, lon = 2, alt = Some 0\<rparr>)
   \<and> normalizeTuple rt 1700000000000 (JArr [JNull, JNull]) 3 0 =
     Inr (Some \<lparr>id_p = ''03-0'', ts = 1699989200000, iso = iso_fmt rt 1699989200000,
                lat = 0, lon = 0, alt = None\<rparr>)
   \<and> normalizeTuple rt now (JArr [JObj [(''toString'', JNum (Fin 1))], JNum (Fin 2)]) hour idx
       = Inl TypeError"
  by (simp add: normalizeTuple_def elem_def toISOString_def padStart2_def char_simps
        finite_or_null_def has_key_def Let_def)

section \<open>Properties of the deduplicator\<close>

text \<open>The loop appends to \<open>out\<close>; what it appends does not depend on \<open>out\<close>.\<close>

lemma dedup_loop_out: "dedup_loop rt ps seen out = out @ dedup_loop rt ps seen []"
proof (induction ps arbitrary: seen out)
  case Nil
  show ?case by simp
next
  case (Cons p ps)
  show ?case
  proof (cases "point_key rt p \<in> seen")
    case True
    then show ?thesis using Cons.IH[of seen out] by simp
  next
    case False
    then show ?thesis
      using Cons.IH[of "insert (point_key rt p) seen" "out @ [p]"]
        Cons.IH[of "insert (point_key rt p) seen" "[p]"]
      by simp
  qed
qed

lemma dedup_loop_Cons:
  "dedup_loop rt (p # ps) seen [] =
     (if point_key rt p \<in> seen then dedup_loop rt ps seen []
      else p # dedup_loop rt ps (insert (point_key rt p) seen) [])"
  using dedup_loop_out[of rt ps "insert (point_key rt p) seen" "[p]"] by simp

lemma dedup_loop_subset: "set (dedup_loop rt ps seen []) \<subseteq> set ps"
proof (induction ps arbitrary: seen)
  case Nil
  show ?case by simp
next
  case (Cons p ps)
  show ?case
    using Cons.IH[of seen] Cons.IH[of "insert (point_key rt p) seen"]
    unfolding dedup_loop_Cons by auto
qed

lemma dedup_loop_unseen: "q \<in> set (dedup_loop rt ps seen []) \<Longrightarrow> point_key rt q \<notin> seen"
proof (induction ps arbitrary: seen)
  case Nil
  then show ?case by simp
next
  case (Cons p ps)
  then show ?case
    unfolding dedup_loop_Cons by (auto split: if_splits)
qed

lemma dedup_loop_distinct: "distinct (map (point_key rt) (dedup_loop rt ps seen []))"
proof (induction ps arbitrary: seen)
  case Nil
  show ?case by simp
next
  case (Cons p ps)
  show ?case
    using Cons.IH[of seen] Cons.IH[of "insert (point_key rt p) seen"]
    unfolding dedup_loop_Cons by (auto dest: dedup_loop_unseen)
qed

lemma dedup_loop_find:
  "find (\<lambda>q. point_key rt q = k) (dedup_loop rt ps seen []) =
     (if k \<in> seen then None else find (\<lambda>q. point_key rt q = k) ps)"
proof (induction ps arbitrary: seen)
  case Nil
  show ?case by simp
next
  case (Cons p ps)
  show ?case
    using Cons.IH[of seen] Cons.IH[of "insert (point_key rt p) seen"]
    unfolding dedup_loop_Cons by auto
qed

lemma dedup_loop_order:
  "sorted_wrt (\<lambda>a b. key_pos rt a ps < key_pos rt b ps) (dedup_loop rt ps seen [])"
proof (induction ps arbitrary: seen)
  case Nil
  show ?case by simp
next
  case (Cons p ps)
  have shift: "sorted_wrt (\<lambda>a b. key_pos rt a (p # ps) < key_pos rt b (p # ps)) (dedup_loop rt ps s [])"
    if avoid: "\<And>q. q \<in> set (dedup_loop rt ps s []) \<Longrightarrow> point_key rt q \<noteq> point_key rt p" for s
  proof (rule sorted_wrt_mono_rel[OF _ Cons.IH[of s]])
    fix a b
    assume "a \<in> set (dedup_loop rt ps s [])" "b \<in> set (dedup_loop rt ps s [])"
      "key_pos rt a ps < key_pos rt b ps"
    then show "key_pos rt a (p # ps) < key_pos rt b (p # ps)"
      using avoid[of a] avoid[of b] by (simp add: key_pos_def)
  qed
  show ?case
  proof (cases "point_key rt p \<in> seen")
    case True
    have "sorted_wrt (\<lambda>a b. key_pos rt a (p # ps) < key_pos rt b (p # ps)) (dedup_loop rt ps seen [])"
      using True by (intro shift) (auto dest: dedup_loop_unseen)
    with True show ?thesis unfolding dedup_loop_Cons by simp
  next
    case False
    let ?s = "insert (point_key rt p) seen"
    have av: "\<And>q. q \<in> set (dedup_loop rt ps ?s []) \<Longrightarrow> point_key rt q \<noteq> point_key rt p"
      by (auto dest: dedup_loop_unseen)
    have "sorted_wrt (\<lambda>a b. key_pos rt a (p # ps) < key_pos rt b (p # ps)) (dedup_loop rt ps ?s [])"
      by (intro shift av)
    moreover have "\<forall>b \<in> set (dedup_loop rt ps ?s []). key_pos rt p (p # ps) < key_pos rt b (p # ps)"
    proof
      fix b assume "b \<in> set (dedup_loop rt ps ?s [])"
      from av[OF this] show "key_pos rt p (p # ps) < key_pos rt b (p # ps)"
        by (simp add: key_pos_def)
    qed
    ultimately show ?thesis using False unfolding dedup_loop_Cons by simp
  qed
qed

lemma append_sep_unique:
  "a @ c # s = b @ c # t \<Longrightarrow> c \<notin> set s \<Longrightarrow> c \<notin> set t \<Longrightarrow> a = b \<and> s = t"
proof (induction a arbitrary: b)
  case Nil
  then show ?case by (cases b) auto
next
  case (Cons x a)
  then show ?case by (cases b) auto
qed

lemma point_key_eq:
  assumes "inj_on (\<lambda>t. num2str rt (Fin t)) (ts ` set ps)"
    and "\<forall>p \<in> set ps. CHR '':'' \<notin> set (num2str rt (Fin (ts p)))"
    and "p \<in> set ps" "q \<in> set ps"
  shows "point_key rt q = point_key rt p \<longleftrightarrow> same_key p q"
proof
  assume "point_key rt q = point_key rt p"
  then have "id_p q @ CHR '':'' # num2str rt (Fin (ts q)) = id_p p @ CHR '':'' # num2str rt (Fin (ts p))"
    by (simp add: point_key_def)
  from append_sep_unique[OF this] assms(2,3,4)
  have "id_p q = id_p p" "num2str rt (Fin (ts q)) = num2str rt (Fin (ts p))" by auto
  with assms(1,3,4) show "same_key p q"
    by (auto simp: same_key_def dest: inj_onD)
next
  assume "same_key p q"
  then show "point_key rt q = point_key rt p"
    by (simp add: same_key_def point_key_def)
qed

lemma find_unique:
  assumes "x \<in> set xs" "P x" "\<forall>y \<in> set xs. P y \<longrightarrow> y = x"
  shows "find P xs = Some x"
  using assms
proof (induction xs)
  case Nil
  then show ?case by simp
next
  case (Cons a xs)
  show ?case
  proof (cases "P a")
    case True
    have "a \<in> set (a # xs)" by simp
    with Cons.prems(3) True have "a = x" by blast
    then show ?thesis using True by simp
  next
    case False
    have "x \<noteq> a" using False Cons.prems(2) by blast
    with Cons.prems(1) have in_xs: "x \<in> set xs" by simp
    have "\<forall>y \<in> set xs. P y \<longrightarrow> y = x" using Cons.prems(3) by fastforce
    from Cons.IH[OF in_xs Cons.prems(2) this] False show ?thesis by simp
  qed
qed

lemma find_SomeD: "find P xs = Some x \<Longrightarrow> x \<in> set xs \<and> P x"
  by (induction xs) (auto split: if_splits)

lemma find_sort_unique:
  assumes "distinct (map K xs)"
  shows "find (\<lambda>q. K q = k) (sort_key f xs) = find (\<lambda>q. K q = k) xs"
proof (cases "find (\<lambda>q. K q = k) xs")
  case None
  then have "find (\<lambda>q. K q = k) (sort_key f xs) = None"
    by (simp add: find_None_iff)
  with None show ?thesis by simp
next
  case (Some x)
  then have x: "x \<in> set xs" "K x = k"
    using find_SomeD[of "\<lambda>q. K q = k" xs x] by simp_all
  from assms have inj: "inj_on K (set xs)" by (simp add: distinct_map)
  have "find (\<lambda>q. K q = k) (sort_key f xs) = Some x"
  proof (rule find_unique)
    show "x \<in> set (sort_key f xs)" using x by simp
    show "K x = k" by (rule x)
    show "\<forall>y \<in> set (sort_key f xs). K y = k \<longrightarrow> y = x"
    proof (intro ballI impI)
      fix y assume "y \<in> set (sort_key f xs)" "K y = k"
      then have "y \<in> set xs" "K y = K x" using x by simp_all
      with inj x(1) show "y = x" by (meson inj_onD)
    qed
  qed
  with Some show ?thesis by simp
qed

text \<open>
  \<^bold>\<open>C4\<close>.  The string key of the code separates id and timestamp by a colon.  It
  identifies the pair when the printed timestamps of the input hold no colon and differ
  for different timestamps, as the decimal form of a finite number does.  Then: no two
  points of the result share id and timestamp; every point of the result is a point of the
  input; for every point of the input, the point of the result with its key is the first
  point of the input with that key; the result is sorted by timestamp; and the points of
  one timestamp stand in the order of their first positions in the input.
\<close>

theorem dedup_spec:
  assumes inj: "inj_on (\<lambda>t. num2str rt (Fin t)) (ts ` set ps)"
    and nocolon: "\<forall>p \<in> set ps. CHR '':'' \<notin> set (num2str rt (Fin (ts p)))"
  shows "distinct (map (\<lambda>p. (id_p p, ts p)) (dedup rt ps))
       \<and> set (dedup rt ps) \<subseteq> set ps
       \<and> (\<forall>p \<in> set ps. find (same_key p) (dedup rt ps) = find (same_key p) ps)
       \<and> sorted (map ts (dedup rt ps))
       \<and> (\<forall>t. sorted_wrt (\<lambda>a b. first_pos a ps < first_pos b ps) (filter (\<lambda>p. ts p = t) (dedup rt ps)))"
proof -
  let ?D = "dedup_loop rt ps {} []"
  have sub: "set ?D \<subseteq> set ps" by (rule dedup_loop_subset)
  have keq: "point_key rt q = point_key rt p \<longleftrightarrow> same_key p q" if "p \<in> set ps" "q \<in> set ps" for p q
    using point_key_eq[OF inj nocolon that] .
  have d1: "distinct (map (\<lambda>p. (id_p p, ts p)) ?D)"
  proof -
    have "inj_on (\<lambda>p. (id_p p, ts p)) (set ?D)"
    proof (rule inj_onI)
      fix x y assume xy: "x \<in> set ?D" "y \<in> set ?D" "(id_p x, ts x) = (id_p y, ts y)"
      then have "same_key x y" by (simp add: same_key_def)
      then have "point_key rt y = point_key rt x" using keq[of x y] xy sub by auto
      with dedup_loop_distinct[of rt ps "{}"] xy show "x = y"
        by (auto simp: distinct_map dest: inj_onD)
    qed
    moreover have "distinct ?D" using dedup_loop_distinct[of rt ps "{}"] by (simp add: distinct_map)
    ultimately show ?thesis by (simp add: distinct_map)
  qed
  have c1: "distinct (map (\<lambda>p. (id_p p, ts p)) (dedup rt ps))"
    using d1 by (simp add: dedup_def distinct_map)
  have c2: "set (dedup rt ps) \<subseteq> set ps"
    using sub by (simp add: dedup_def)
  have c3: "find (same_key p) (dedup rt ps) = find (same_key p) ps" if p: "p \<in> set ps" for p
  proof -
    have "find (same_key p) (dedup rt ps) = find (\<lambda>q. point_key rt q = point_key rt p) (dedup rt ps)"
      using keq[OF p] c2 by (intro find_cong) auto
    also have "\<dots> = find (\<lambda>q. point_key rt q = point_key rt p) ?D"
      unfolding dedup_def by (rule find_sort_unique[OF dedup_loop_distinct])
    also have "\<dots> = find (\<lambda>q. point_key rt q = point_key rt p) ps"
      by (simp add: dedup_loop_find)
    also have "\<dots> = find (same_key p) ps"
      using keq[OF p] by (intro find_cong) auto
    finally show ?thesis .
  qed
  have c4: "sorted (map ts (dedup rt ps))"
    by (simp add: dedup_def)
  have c5: "sorted_wrt (\<lambda>a b. first_pos a ps < first_pos b ps) (filter (\<lambda>p. ts p = t) (dedup rt ps))" for t
  proof -
    have pos: "key_pos rt a ps = first_pos a ps" if "a \<in> set ps" for a
      unfolding key_pos_def first_pos_def
      using keq[OF that] by (intro arg_cong[where f = length] takeWhile_cong) auto
    have "sorted_wrt (\<lambda>a b. first_pos a ps < first_pos b ps) ?D"
    proof (rule sorted_wrt_mono_rel[OF _ dedup_loop_order[of rt ps "{}"]])
      fix a b
      assume "a \<in> set ?D" "b \<in> set ?D" "key_pos rt a ps < key_pos rt b ps"
      moreover from this sub have "a \<in> set ps" "b \<in> set ps" by blast+
      ultimately show "first_pos a ps < first_pos b ps"
        by (simp add: pos)
    qed
    then have "sorted_wrt (\<lambda>a b. first_pos a ps < first_pos b ps) (filter (\<lambda>p. ts p = t) ?D)"
      by (rule sorted_wrt_filter)
    then show ?thesis
      by (simp add: dedup_def sort_key_stable)
  qed
  show ?thesis
  proof (intro conjI ballI allI)
    show "distinct (map (\<lambda>p. (id_p p, ts p)) (dedup rt ps))" by (rule c1)
    show "set (dedup rt ps) \<subseteq> set ps" by (rule c2)
    show "sorted (map ts (dedup rt ps))" by (rule c4)
    show "find (same_key p) (dedup rt ps) = find (same_key p) ps" if "p \<in> set ps" for p
      using that by (rule c3)
    show "sorted_wrt (\<lambda>a b. first_pos a ps < first_pos b ps) (filter (\<lambda>p. ts p = t) (dedup rt ps))" for t
      by (rule c5)
  qed
qed

theorem dedup_spec_witness:
  "distinct (map (\<lambda>p. (id_p p, ts p)) (dedup small_rt [pt ''x'' 2 0, pt ''y'' 1 0, pt ''x'' 2 5]))
   \<and> find (same_key (pt ''x'' 2 5)) (dedup small_rt [pt ''x'' 2 0, pt ''y'' 1 0, pt ''x'' 2 5])
       = Some (pt ''x'' 2 0)
   \<and> sorted (map ts (dedup small_rt [pt ''x'' 2 0, pt ''y'' 1 0, pt ''x'' 2 5]))"
proof -
  have pw: "print_whole (Fin 2) = ''2''" "print_whole (Fin 1) = ''1''"
    by (simp_all add: print_whole_def char_simps)
  have h1: "inj_on (\<lambda>t. num2str small_rt (Fin t)) (ts ` set [pt ''x'' 2 0, pt ''y'' 1 0, pt ''x'' 2 5])"
    by (auto simp: inj_on_def small_rt_def pt_def pw)
  have h2: "\<forall>p \<in> set [pt ''x'' 2 0, pt ''y'' 1 0, pt ''x'' 2 5].
              CHR '':'' \<notin> set (num2str small_rt (Fin (ts p)))"
    by (simp add: small_rt_def pt_def pw)
  note t = dedup_spec[OF h1 h2]
  from t have a: "distinct (map (\<lambda>p. (id_p p, ts p)) (dedup small_rt [pt ''x'' 2 0, pt ''y'' 1 0, pt ''x'' 2 5]))"
    by (rule conjunct1)
  from t have "\<forall>p\<in>set [pt ''x'' 2 0, pt ''y'' 1 0, pt ''x'' 2 5].
     find (same_key p) (dedup small_rt [pt ''x'' 2 0, pt ''y'' 1 0, pt ''x'' 2 5]) =
     find (same_key p) [pt ''x'' 2 0, pt ''y'' 1 0, pt ''x'' 2 5]"
    by (elim conjE)
  then have b: "find (same_key (pt ''x'' 2 5)) (dedup small_rt [pt ''x'' 2 0, pt ''y'' 1 0, pt ''x'' 2 5])
       = Some (pt ''x'' 2 0)"
    by (simp add: same_key_def pt_def)
  from t have c: "sorted (map ts (dedup small_rt [pt ''x'' 2 0, pt ''y'' 1 0, pt ''x'' 2 5]))"
    by (elim conjE)
  from a b c show ?thesis by (intro conjI)
qed

section \<open>Properties of body explode\<close>

text \<open>
  \<^bold>\<open>C7\<close>.  \<open>explodeBodyToRecords\<close> is a function to lists: the one call that can throw,
  \<^verbatim>\<open>JSON.parse\<close>, stands in \<open>safeJSON\<close>, whose \<^verbatim>\<open>catch\<close> returns \<^verbatim>\<open>null\<close>.  When the decoded
  form of the body is no array, no object and no string of several non-blank lines, the
  result is empty.  The first hypothesis is a fact about \<^verbatim>\<open>JSON.parse\<close>: a text it reads
  as a scalar has one non-blank line.
\<close>

theorem explode_shape_mismatch:
  assumes parse: "\<forall>s v. body = JStr s \<and> JSON_parse rt s = Inr v \<and> isScalar v \<and> v \<noteq> JNull
                    \<longrightarrow> length (nonblank_lines s) \<le> 1"
    and shape: "\<not> isArray (decoded rt body)" "\<not> isPlainObject (decoded rt body)"
               "\<not> multi_line (decoded rt body)"
  shows "explodeBodyToRecords rt body = []
       \<and> (\<forall>s e. JSON_parse rt s = Inl e \<longrightarrow> safeJSON rt (JStr s) = JNull)"
proof
  show "\<forall>s e. JSON_parse rt s = Inl e \<longrightarrow> safeJSON rt (JStr s) = JNull"
    by (simp add: safeJSON_def)
next
  have lines: "length (nonblank_lines s) \<le> 1" if b: "body = JStr s" for s
  proof (cases "JSON_parse rt s")
    case (Inl e)
    then have "decoded rt body = body" using b by (simp add: decoded_def safeJSON_def)
    with shape(3) b show ?thesis by (simp add: multi_line_def)
  next
    case (Inr v)
    show ?thesis
    proof (cases "v = JNull")
      case True
      then have "decoded rt body = body" using b Inr by (simp add: decoded_def safeJSON_def)
      with shape(3) b show ?thesis by (simp add: multi_line_def)
    next
      case False
      then have d: "decoded rt body = v" using b Inr by (simp add: decoded_def safeJSON_def)
      with shape(1,2) have "isScalar v" by (cases v) simp_all
      with parse b Inr False show ?thesis by blast
    qed
  qed
  show "explodeBodyToRecords rt body = []"
  proof (cases "decoded rt body")
    case (JArr xs)
    with shape(1) show ?thesis by simp
  next
    case (JObj kvs)
    with shape(2) show ?thesis by simp
  next
    case JNull
    then show ?thesis using lines
      by (cases body) (simp_all add: explodeBodyToRecords_def Let_def)
  next
    case (JBool b)
    then show ?thesis using lines
      by (cases body) (simp_all add: explodeBodyToRecords_def Let_def)
  next
    case (JNum n)
    then show ?thesis using lines
      by (cases body) (simp_all add: explodeBodyToRecords_def Let_def)
  next
    case (JStr t)
    then show ?thesis using lines
      by (cases body) (simp_all add: explodeBodyToRecords_def Let_def)
  qed
qed

lemma nonblank_hello: "nonblank_lines ''hello'' = [''hello'']"
  by (simp add: nonblank_lines_def trim_def is_space_def)

theorem explode_shape_mismatch_witness:
  "explodeBodyToRecords small_rt (JStr ''hello'') = []
   \<and> explodeBodyToRecords small_rt (JNum (Fin 5)) = []
   \<and> safeJSON small_rt (JStr ''hello'') = JNull"
proof -
  have d: "decoded small_rt (JStr ''hello'') = JStr ''hello''"
    "decoded small_rt (JNum (Fin 5)) = JNum (Fin 5)"
    by (simp_all add: decoded_def safeJSON_def small_rt_def)
  have p: "JSON_parse small_rt ''hello'' = Inl SyntaxError"
    by (simp add: small_rt_def)
  have a: "explodeBodyToRecords small_rt (JStr ''hello'') = []"
    using explode_shape_mismatch[of "JStr ''hello''" small_rt] d
    by (simp add: multi_line_def nonblank_hello small_rt_def)
  have b: "explodeBodyToRecords small_rt (JNum (Fin 5)) = []"
    using explode_shape_mismatch[of "JNum (Fin 5)" small_rt] d
    by (simp add: multi_line_def)
  have c: "safeJSON small_rt (JStr ''hello'') = JNull"
    using explode_shape_mismatch[of "JNum (Fin 5)" small_rt] d p
    by (simp add: multi_line_def)
  from a b c show ?thesis by simp
qed

section \<open>Properties of the source fetcher\<close>

lemma flatten_poisoned:
  "flatten (JObj [(''id'', JStr ''a''), (''t'', JNum (Fin 10000000000000000)),
                  (''lat'', JNum (Fin 0)), (''lon'', JNum (Fin 0))]) [] [] =
   [(''id'', JStr ''a''), (''t'', JNum (Fin 10000000000000000)),
                  (''lat'', JNum (Fin 0)), (''lon'', JNum (Fin 0))]"
  by (simp add: store_simps)

lemma normalizeObject_poisoned:
  "normalizeObject rt (JObj [(''id'', JStr ''a''), (''t'', JNum (Fin 10000000000000000)),
                  (''lat'', JNum (Fin 0)), (''lon'', JNum (Fin 0))]) = Inl RangeError"
  unfolding normalizeObject_def flatten_poisoned
  by (simp add: key_simps store_simps toMs_def toISOString_def finite_or_null_def)

lemma fetch_poisoned:
  "fetchWindborne24h rt clock debug (Inr poisoned # rest) = Inl RangeError"
  by (simp add: fetchWindborne24h_def explodeBodyToRecords_def decoded_def safeJSON_def poisoned_def
        normalizeObject_poisoned)

text \<open>
  \<^bold>\<open>C6\<close>, at a fetch whose first bucket is fulfilled with the body \<open>poisoned\<close>, whatever
  the other buckets are.  The timestamp of its record passes \<^verbatim>\<open>Number.isFinite\<close>, and
  \<^verbatim>\<open>new Date(ts).toISOString()\<close> throws a \<^verbatim>\<open>RangeError\<close> in \<open>normalizeObject\<close>; nothing
  catches it in \<open>fetchWindborne24h\<close>, which returns no points and no counters.  The second
  equation is the same fetch for a body that arrives as text and is read by \<^verbatim>\<open>JSON.parse\<close>
  as \<open>poisoned\<close>.
\<close>

theorem fetch_aborted_by_one_record:
  "fetchWindborne24h rt clock debug (Inr poisoned # rest) = Inl RangeError
   \<and> fetchWindborne24h (rt\<lparr>JSON_parse := (\<lambda>s. Inr poisoned)\<rparr>) clock debug (Inr (JStr txt) # rest)
       = Inl RangeError"
  by (simp add: fetchWindborne24h_def explodeBodyToRecords_def decoded_def safeJSON_def poisoned_def
        normalizeObject_poisoned)

text \<open>
  Rejected retrievals themselves are isolated.  When no normalizer throws on the body of
  a fulfilled bucket, the fetch returns the deduplicated points of all fulfilled buckets,
  and its counters count the fulfilled and the rejected buckets.
\<close>

lemma tuple_items_acc:
  "tuple_items rt c i idx items ps =
     (case tuple_items rt c i idx items [] of Inl e \<Rightarrow> Inl e | Inr qs \<Rightarrow> Inr (ps @ qs))"
proof (induction items arbitrary: idx ps)
  case Nil
  show ?case by simp
next
  case (Cons t items)
  show ?case
  proof (cases "normalizeTuple rt (c idx) t i idx")
    case (Inl e)
    then show ?thesis by simp
  next
    case (Inr p)
    show ?thesis
      using Cons.IH[of "Suc idx" "push_point p ps"] Cons.IH[of "Suc idx" "push_point p []"] Inr
      by (cases p; cases "tuple_items rt c i (Suc idx) items []") (simp_all add: push_point_def)
  qed
qed

lemma object_items_acc:
  "object_items rt items ps =
     (case object_items rt items [] of Inl e \<Rightarrow> Inl e | Inr qs \<Rightarrow> Inr (ps @ qs))"
proof (induction items arbitrary: ps)
  case Nil
  show ?case by simp
next
  case (Cons x items)
  show ?case
  proof (cases "normalizeObject rt x")
    case (Inl e)
    then show ?thesis by simp
  next
    case (Inr p)
    show ?thesis
      using Cons.IH[of "push_point p ps"] Cons.IH[of "push_point p []"] Inr
      by (cases p; cases "object_items rt items []") (simp_all add: push_point_def)
  qed
qed

lemma fetch_loop_Inr:
  "fetch_loop rt clock i (Inr body # results) st =
     (case bucket_points rt clock i body of
        Inl e \<Rightarrow> Inl e
      | Inr qs \<Rightarrow>
          fetch_loop rt clock (Suc i) results
            (st\<lparr>ok := ok st + 1, raw := raw st + length (explodeBodyToRecords rt body),
                pushed := pushed st @ qs\<rparr>))"
proof (cases "case explodeBodyToRecords rt body of [] \<Rightarrow> False | x # xs \<Rightarrow> isArray x")
  case True
  then show ?thesis
    using tuple_items_acc[of rt "clock i" i 0 "explodeBodyToRecords rt body" "pushed st"]
    by (cases "tuple_items rt (clock i) i 0 (explodeBodyToRecords rt body) []")
       (simp_all add: bucket_points_def Let_def)
next
  case False
  then show ?thesis
    using object_items_acc[of rt "explodeBodyToRecords rt body" "pushed st"]
    by (cases "object_items rt (explodeBodyToRecords rt body) []")
       (simp_all add: bucket_points_def Let_def)
qed

lemma fetch_loop_Inl:
  "fetch_loop rt clock i (Inl e # results) st =
     fetch_loop rt clock (Suc i) results (st\<lparr>bad := bad st + 1\<rparr>)"
  by simp

lemma fetch_loop_settles:
  "no_throw rt clock i results \<Longrightarrow>
   fetch_loop rt clock i results st =
     Inr \<lparr>raw = raw st + raw_count rt results,
          ok = ok st + length (filter (\<lambda>r. \<not> isl r) results),
          bad = bad st + length (filter isl results),
          pushed = pushed st @ settled_points rt clock i results\<rparr>"
proof (induction results arbitrary: i st)
  case Nil
  show ?case by (simp add: raw_count_def)
next
  case (Cons r results)
  from Cons.prems have nt: "no_throw rt clock (Suc i) results" by simp
  show ?case
  proof (cases r)
    case (Inl e)
    then show ?thesis
      using Cons.IH[OF nt, of "st\<lparr>bad := bad st + 1\<rparr>"]
      by (simp only: fetch_loop_Inl) (simp add: raw_count_def)
  next
    case (Inr body)
    with Cons.prems obtain qs where qs: "bucket_points rt clock i body = Inr qs"
      by (cases "bucket_points rt clock i body") auto
    show ?thesis
      using Cons.IH[OF nt, of "st\<lparr>ok := ok st + 1, raw := raw st + length (explodeBodyToRecords rt body),
                pushed := pushed st @ qs\<rparr>"] Inr qs
      by (simp only: fetch_loop_Inr) (simp add: raw_count_def)
  qed
qed

lemma fetch_settles_all:
  assumes "no_throw rt clock 0 results"
  shows "fetchWindborne24h rt clock debug results =
     Inr (if debug
          then WithDebug \<lparr>files_ok = length (filter (\<lambda>r. \<not> isl r) results),
                          files_failed = length (filter isl results),
                          raw_records = raw_count rt results,
                          normalized = length (dedup rt (settled_points rt clock 0 results)),
                          unique_points = length (dedup rt (settled_points rt clock 0 results))\<rparr>
                 (dedup rt (settled_points rt clock 0 results))
          else Points (dedup rt (settled_points rt clock 0 results)))"
  using fetch_loop_settles[OF assms, of "\<lparr>raw = 0, ok = 0, bad = 0, pushed = []\<rparr>"]
  by (simp add: fetchWindborne24h_def Let_def)

section \<open>Properties of the enrichment\<close>

lemma enumerate_shift_gen:
  "map (\<lambda>(j, p). f (i + j) p) (enumerate n xs) = map (\<lambda>(k, p). f k p) (enumerate (i + n) xs)"
  by (induction xs arbitrary: n) simp_all

lemma enumerate_shift:
  "map (\<lambda>(j, p). f (i + j) p) (enumerate 0 xs) = map (\<lambda>(k, p). f k p) (enumerate i xs)"
  using enumerate_shift_gen[of f i 0 xs] by simp

lemma enrich_from_eq:
  "enrich_from W A ps i out = out @ map (enrich_one W A) (enumerate i (drop i ps))"
proof (induction W A ps i out rule: enrich_from.induct)
  case (1 W A points i out)
  show ?case
  proof (cases "i < length points")
    case False
    then show ?thesis by (simp add: enrich_from.simps[of W A points i out])
  next
    case True
    let ?d = "drop i points"
    have split: "enumerate i ?d = enumerate i (take BATCH ?d) @ enumerate (i + BATCH) (drop (i + BATCH) points)"
    proof -
      have "enumerate i ?d = enumerate i (take BATCH ?d @ drop BATCH ?d)"
        by (simp only: append_take_drop_id)
      also have "\<dots> = enumerate i (take BATCH ?d) @ enumerate (i + length (take BATCH ?d)) (drop BATCH ?d)"
        by (rule enumerate_append_eq)
      also have "enumerate (i + length (take BATCH ?d)) (drop BATCH ?d) = enumerate (i + BATCH) (drop (i + BATCH) points)"
      proof (cases "BATCH \<le> length ?d")
        case True
        then show ?thesis by (simp add: min_def add.commute)
      next
        case False
        then show ?thesis by simp
      qed
      finally show ?thesis .
    qed
    have "map (\<lambda>(j, p). withAir (A (i + j)) (withWind (W (i + j)) p)) (enumerate 0 (take BATCH ?d))
          = map (enrich_one W A) (enumerate i (take BATCH ?d))"
      using enumerate_shift[of "\<lambda>k p. withAir (A k) (withWind (W k) p)" i "take BATCH ?d"]
      by (simp add: enrich_one_def case_prod_beta)
    then show ?thesis
      using 1[OF True refl refl] True split
      by (simp add: enrich_from.simps[of W A points i out] Let_def)
  qed
qed

lemma enrich_eq: "enrich W A ps = map (enrich_one W A) (enumerate 0 ps)"
  by (simp add: enrich_def enrich_from_eq)

lemma enrich_nth:
  assumes "k < length ps"
  shows "enrich W A ps ! k = withAir (A k) (withWind (W k) (ps ! k))"
  using assms by (simp add: enrich_eq enrich_one_def nth_enumerate_eq)

text \<open>
  \<^verbatim>\<open>measurements.find(x => x.parameter === 'pm25')\<close> stops at the first element that is
  \<^verbatim>\<open>null\<close>, where it throws, or whose parameter is \<^verbatim>\<open>pm25\<close>, which it returns.
\<close>

lemma find_pm25_find:
  "find_pm25 xs =
     (case find (\<lambda>x. x = JNull \<or> get_prop x ''parameter'' = Some (JStr ''pm25'')) xs of
        None \<Rightarrow> Inr None
      | Some m \<Rightarrow> if m = JNull then Inl TypeError else Inr (Some m))"
  by (induction xs) auto

lemma withAir_air:
  "air (withAir res p) =
     (case res of
        Inl e \<Rightarrow> None
      | Inr d \<Rightarrow>
          (case opt_prop (opt_prop (opt_prop (Some d) ''results'') ''0'') ''measurements'' of
             Some (JArr ms) \<Rightarrow>
               (case find (\<lambda>x. x = JNull \<or> get_prop x ''parameter'' = Some (JStr ''pm25'')) ms of
                  Some m \<Rightarrow>
                    if m = JNull then None
                    else Some \<lparr>pm25 = get_prop m ''value'', unit = get_prop m ''unit'',
                               lastUpdated = get_prop m ''lastUpdated''\<rparr>
                | None \<Rightarrow> None)
           | _ \<Rightarrow> None))"
  by (simp add: withAir_def pm25_measurement_def find_pm25_find
        split: sum.splits option.splits jv.splits)

text \<open>
  \<^bold>\<open>C8\<close>.  \<open>enrich\<close> returns one point for each point of the input, in the same order.
  The point at position \<open>k\<close> has the id, timestamp, latitude, longitude and altitude of the
  input point at \<open>k\<close>.  Its \<open>wind\<close> is \<^verbatim>\<open>null\<close> when the wind request for \<open>k\<close> failed and the
  \<^verbatim>\<open>current\<close> field of the response (\<^verbatim>\<open>null\<close> when there is none) otherwise.  Its \<open>air\<close> is
  \<^verbatim>\<open>null\<close> when the air request for \<open>k\<close> failed; otherwise it is read from the array
  \<^verbatim>\<open>measurements\<close> of the first result of the response: the fields \<^verbatim>\<open>value\<close>, \<^verbatim>\<open>unit\<close> and
  \<^verbatim>\<open>lastUpdated\<close> of the first measurement whose parameter is \<^verbatim>\<open>pm25\<close>, and \<^verbatim>\<open>null\<close> when
  there is no such array, no such measurement, or a \<^verbatim>\<open>null\<close> measurement before it.  The
  point at \<open>k\<close> depends on the outcomes of the requests for \<open>k\<close> only: a failure for another
  point does not change it.  The input is a value of the model: building the output cannot
  change it.
\<close>

theorem enrich_frame:
  "length (enrich W A ps) = length ps
   \<and> (\<forall>k < length ps.
        id_p (enrich W A ps ! k) = id_p (ps ! k)
      \<and> ts (enrich W A ps ! k) = ts (ps ! k)
      \<and> iso (enrich W A ps ! k) = iso (ps ! k)
      \<and> lat (enrich W A ps ! k) = lat (ps ! k)
      \<and> lon (enrich W A ps ! k) = lon (ps ! k)
      \<and> alt (enrich W A ps ! k) = alt (ps ! k)
      \<and> wind (enrich W A ps ! k) =
          (case W k of
             Inl e \<Rightarrow> JNull
           | Inr d \<Rightarrow> (case opt_prop (Some d) ''current'' of None \<Rightarrow> JNull | Some w \<Rightarrow> w))
      \<and> air (enrich W A ps ! k) =
          (case A k of
             Inl e \<Rightarrow> None
           | Inr d \<Rightarrow>
               (case opt_prop (opt_prop (opt_prop (Some d) ''results'') ''0'') ''measurements'' of
                  Some (JArr ms) \<Rightarrow>
                    (case find (\<lambda>x. x = JNull \<or> get_prop x ''parameter'' = Some (JStr ''pm25'')) ms of
                       Some m \<Rightarrow>
                         if m = JNull then None
                         else Some \<lparr>pm25 = get_prop m ''value'', unit = get_prop m ''unit'',
                                    lastUpdated = get_prop m ''lastUpdated''\<rparr>
                     | None \<Rightarrow> None)
                | _ \<Rightarrow> None)))
   \<and> (\<forall>k < length ps. \<forall>W' A'. W' k = W k \<and> A' k = A k \<longrightarrow>
          enrich W' A' ps ! k = enrich W A ps ! k)"
proof (intro conjI allI impI)
  show "length (enrich W A ps) = length ps"
    by (simp add: enrich_eq)
next
  fix k assume k: "k < length ps"
  show "id_p (enrich W A ps ! k) = id_p (ps ! k)"
    "ts (enrich W A ps ! k) = ts (ps ! k)"
    "iso (enrich W A ps ! k) = iso (ps ! k)"
    "lat (enrich W A ps ! k) = lat (ps ! k)"
    "lon (enrich W A ps ! k) = lon (ps ! k)"
    "alt (enrich W A ps ! k) = alt (ps ! k)"
    by (simp_all add: enrich_nth[OF k] withAir_def withWind_def)
  show "wind (enrich W A ps ! k) =
          (case W k of
             Inl e \<Rightarrow> JNull
           | Inr d \<Rightarrow> (case opt_prop (Some d) ''current'' of None \<Rightarrow> JNull | Some w \<Rightarrow> w))"
    by (simp add: enrich_nth[OF k] withAir_def withWind_def)
  show "air (enrich W A ps ! k) =
          (case A k of
             Inl e \<Rightarrow> None
           | Inr d \<Rightarrow>
               (case opt_prop (opt_prop (opt_prop (Some d) ''results'') ''0'') ''measurements'' of
                  Some (JArr ms) \<Rightarrow>
                    (case find (\<lambda>x. x = JNull \<or> get_prop x ''parameter'' = Some (JStr ''pm25'')) ms of
                       Some m \<Rightarrow>
                         if m = JNull then None
                         else Some \<lparr>pm25 = get_prop m ''value'', unit = get_prop m ''unit'',
                                    lastUpdated = get_prop m ''lastUpdated''\<rparr>
                     | None \<Rightarrow> None)
                | _ \<Rightarrow> None))"
    by (simp only: enrich_nth[OF k] withAir_air)
next
  fix k W' A' assume "k < length ps" "W' k = W k \<and> A' k = A k"
  then show "enrich W' A' ps ! k = enrich W A ps ! k"
    by (simp add: enrich_nth)
qed

lemmas prop_simps = opt_prop_def get_prop_def obj_get_def array_index_def is_digit_def elem_def

theorem enrich_frame_witness:
  "length (enrich sample_wind sample_air [pt ''x'' 1 0, pt ''y'' 2 0]) = 2
   \<and> id_p (enrich sample_wind sample_air [pt ''x'' 1 0, pt ''y'' 2 0] ! 0) = ''x''
   \<and> lat (enrich sample_wind sample_air [pt ''x'' 1 0, pt ''y'' 2 0] ! 1) = 0
   \<and> wind (enrich sample_wind sample_air [pt ''x'' 1 0, pt ''y'' 2 0] ! 0) = JNull
   \<and> wind (enrich sample_wind sample_air [pt ''x'' 1 0, pt ''y'' 2 0] ! 1) = JNum (Fin 3)
   \<and> air (enrich sample_wind sample_air [pt ''x'' 1 0, pt ''y'' 2 0] ! 0)
       = Some \<lparr>pm25 = Some (JNum (Fin 12)), unit = Some (JStr ''ug''), lastUpdated = None\<rparr>
   \<and> air (enrich sample_wind sample_air [pt ''x'' 1 0, pt ''y'' 2 0] ! 1) = None"
proof -
  note t = enrich_frame[of sample_wind sample_air "[pt ''x'' 1 0, pt ''y'' 2 0]"]
  from t have a: "length (enrich sample_wind sample_air [pt ''x'' 1 0, pt ''y'' 2 0]) = 2"
    by simp
  from t[THEN conjunct2, THEN conjunct1, rule_format, of 0]
  have b: "id_p (enrich sample_wind sample_air [pt ''x'' 1 0, pt ''y'' 2 0] ! 0) = ''x''"
    "wind (enrich sample_wind sample_air [pt ''x'' 1 0, pt ''y'' 2 0] ! 0) = JNull"
    "air (enrich sample_wind sample_air [pt ''x'' 1 0, pt ''y'' 2 0] ! 0)
       = Some \<lparr>pm25 = Some (JNum (Fin 12)), unit = Some (JStr ''ug''), lastUpdated = None\<rparr>"
    by (simp_all add: pt_def sample_wind_def sample_air_def prop_simps)
  from t[THEN conjunct2, THEN conjunct1, rule_format, of 1]
  have c: "lat (enrich sample_wind sample_air [pt ''x'' 1 0, pt ''y'' 2 0] ! 1) = 0"
    "wind (enrich sample_wind sample_air [pt ''x'' 1 0, pt ''y'' 2 0] ! 1) = JNum (Fin 3)"
    "air (enrich sample_wind sample_air [pt ''x'' 1 0, pt ''y'' 2 0] ! 1) = None"
    by (simp_all add: pt_def sample_wind_def sample_air_def prop_simps)
  from a b c show ?thesis by (intro conjI)
qed

section \<open>Properties of the cache\<close>

lemma fetch_all_failed:
  "fetchWindborne24h rt clock False [Inl NetworkError, Inl NetworkError] = Inr (Points [])"
  by (simp add: fetchWindborne24h_def dedup_def)

text \<open>
  \<^bold>\<open>C9\<close>.  When the fetch of a warm cycle throws, the cache after the cycle is the cache
  before it.  When it returns, the cache is the new entry, both fields from this cycle.
  So the entry after a cycle is the old one, or one that does not depend on the old one.
  \<open>enrich\<close> has no failing path, each of its requests standing in a \<^verbatim>\<open>try\<close> with a
  \<^verbatim>\<open>catch\<close>: the fetch is the only step that can throw.
\<close>

theorem warm_atomic:
  "(\<forall>e. fetchWindborne24h rt clock False results = Inl e \<longrightarrow>
        warm enabled rt clock results now W A c = c)
   \<and> (\<forall>r. fetchWindborne24h rt clock False results = Inr r \<longrightarrow>
        warm enabled rt clock results now W A c =
          \<lparr>time = now,
           points = Some (if enabled then Enriched (enrich W A (fetched_points r))
                          else Plain (fetched_points r))\<rparr>)
   \<and> (warm enabled rt clock results now W A c = c
        \<or> (\<forall>c'. warm enabled rt clock results now W A c' = warm enabled rt clock results now W A c))"
  by (cases "fetchWindborne24h rt clock False results") (simp_all add: warm_def Let_def)

theorem warm_atomic_witness:
  "warm True small_rt (\<lambda>i j. 0) [Inr poisoned] 7 (\<lambda>k. Inl NetworkError) (\<lambda>k. Inl NetworkError)
      \<lparr>time = 3, points = Some (Plain [pt ''x'' 1 0])\<rparr> = \<lparr>time = 3, points = Some (Plain [pt ''x'' 1 0])\<rparr>
   \<and> warm False small_rt (\<lambda>i j. 0) [Inl NetworkError, Inl NetworkError] 7 (\<lambda>k. Inl NetworkError) (\<lambda>k. Inl NetworkError)
      \<lparr>time = 3, points = Some (Plain [pt ''x'' 1 0])\<rparr> = \<lparr>time = 7, points = Some (Plain [])\<rparr>"
proof -
  have a: "warm True small_rt (\<lambda>i j. 0) [Inr poisoned] 7 (\<lambda>k. Inl NetworkError) (\<lambda>k. Inl NetworkError)
      \<lparr>time = 3, points = Some (Plain [pt ''x'' 1 0])\<rparr> = \<lparr>time = 3, points = Some (Plain [pt ''x'' 1 0])\<rparr>"
    using warm_atomic[of small_rt "\<lambda>i j. 0" "[Inr poisoned]" True 7 "\<lambda>k. Inl NetworkError" "\<lambda>k. Inl NetworkError"
        "\<lparr>time = 3, points = Some (Plain [pt ''x'' 1 0])\<rparr>"]
      fetch_poisoned[of small_rt "\<lambda>i j. 0" False "[]"]
    by simp
  have b: "warm False small_rt (\<lambda>i j. 0) [Inl NetworkError, Inl NetworkError] 7 (\<lambda>k. Inl NetworkError) (\<lambda>k. Inl NetworkError)
      \<lparr>time = 3, points = Some (Plain [pt ''x'' 1 0])\<rparr> = \<lparr>time = 7, points = Some (Plain [])\<rparr>"
    using warm_atomic[of small_rt "\<lambda>i j. 0" "[Inl NetworkError, Inl NetworkError]" False 7 "\<lambda>k. Inl NetworkError" "\<lambda>k. Inl NetworkError"
        "\<lparr>time = 3, points = Some (Plain [pt ''x'' 1 0])\<rparr>"]
      fetch_all_failed[of small_rt "\<lambda>i j. 0"]
    by simp
  from a b show ?thesis by (intro conjI)
qed

text \<open>The fetch of the sample body, in both modes.\<close>

lemma fetch_tuple_body:
  "fetchWindborne24h small_rt (\<lambda>i j. 5) dbg [Inr tuple_body] =
     Inr (if dbg
          then WithDebug \<lparr>files_ok = 1, files_failed = 0, raw_records = 1, normalized = 1,
                          unique_points = 1\<rparr> [tuple_point]
          else Points [tuple_point])"
  by (simp add: fetchWindborne24h_def explodeBodyToRecords_def decoded_def safeJSON_def
        tuple_body_def tuple_point_def normalizeTuple_def elem_def toISOString_def padStart2_def
        finite_or_null_def push_point_def dedup_def small_rt_def print_whole_def char_simps Let_def)

text \<open>What the handler does when it may not use the cache.\<close>

lemma getData_without_cache:
  assumes "\<not> use_cache enabled qdebug qnoenrich"
  shows "getData enabled rt clock results now W A qdebug qnoenrich c =
     \<lparr>reply =
        (case fetchWindborne24h rt clock (qdebug = ''1'') results of
           Inl e \<Rightarrow> Failed e
         | Inr r \<Rightarrow>
             if qdebug = ''1''
             then FreshDebug (fetched_debug r) (enabled \<and> qnoenrich \<noteq> ''1'')
                    (if enabled \<and> qnoenrich \<noteq> ''1'' then Enriched (enrich W A (fetched_points r))
                     else Plain (fetched_points r))
             else Fresh (Plain (fetched_points r))),
      cache_after = c, fetch_called = True\<rparr>"
  using assms
  by (cases "fetchWindborne24h rt clock (qdebug = ''1'') results")
     (auto simp: getData_def use_cache_def Let_def)

text \<open>What it does when it may: a fresh entry is served, and no fetch is made.\<close>

lemma getData_cache_hit:
  assumes "use_cache enabled qdebug qnoenrich" "points c = Some ps" "now - time c < CACHE_MS"
  shows "getData enabled rt clock results now W A qdebug qnoenrich c =
     \<lparr>reply = Cached ps, cache_after = c, fetch_called = False\<rparr>"
  using assms by (simp add: getData_def use_cache_def Let_def)

text \<open>Without a fresh entry it fetches, enriches, and stores what it replies.\<close>

lemma getData_cache_miss:
  assumes "use_cache enabled qdebug qnoenrich" "points c = None \<or> CACHE_MS \<le> now - time c"
  shows "getData enabled rt clock results now W A qdebug qnoenrich c =
     (case fetchWindborne24h rt clock False results of
        Inl e \<Rightarrow> \<lparr>reply = Failed e, cache_after = c, fetch_called = True\<rparr>
      | Inr r \<Rightarrow>
          \<lparr>reply = Fresh (Enriched (enrich W A (fetched_points r))),
           cache_after = \<lparr>time = now, points = Some (Enriched (enrich W A (fetched_points r)))\<rparr>,
           fetch_called = True\<rparr>)"
  using assms
  by (cases "fetchWindborne24h rt clock False results")
     (auto simp: getData_def use_cache_def Let_def split: option.splits)

text \<open>
  \<^bold>\<open>C10\<close>.  A request is answered from the cache only under \<open>use_cache\<close>: enrichment
  enabled, and neither the debug nor the no-enrichment option set; the cache after the
  request differs from the cache before only under \<open>use_cache\<close>, and only after a fetch.
  \<^item> Without \<open>use_cache\<close> the request calls \<open>fetchWindborne24h\<close> and leaves the cache as it
    is; its reply is the error of the fetch, or the points the fetch returned (enriched
    only in debug mode with enrichment enabled and requested), and does not depend on the
    cache.
  \<^item> Under \<open>use_cache\<close>, an entry younger than \<open>CACHE_MS\<close> is the reply, without a fetch;
    otherwise the request fetches, and when the fetch returns, the enriched points are both
    the reply and, with the time of the request, the new entry.
  \<^item> With enrichment disabled, which is the case unless the environment variable is \<^verbatim>\<open>1\<close>,
    every request fetches, replies with what \<open>fetchWindborne24h\<close> returned, and never
    serves or stores a cache entry, while a warm cycle whose fetch returns still stores
    its points.
  \<^item> The period \<open>CACHE_MS\<close> is five minutes.
\<close>

theorem getData_cache_gate:
  "(\<forall>ps. reply (getData enabled rt clock results now W A qdebug qnoenrich c) = Cached ps
        \<longrightarrow> use_cache enabled qdebug qnoenrich)
   \<and> (cache_after (getData enabled rt clock results now W A qdebug qnoenrich c) \<noteq> c
        \<longrightarrow> use_cache enabled qdebug qnoenrich
            \<and> fetch_called (getData enabled rt clock results now W A qdebug qnoenrich c))
   \<and> (\<not> use_cache enabled qdebug qnoenrich \<longrightarrow>
        fetch_called (getData enabled rt clock results now W A qdebug qnoenrich c)
      \<and> cache_after (getData enabled rt clock results now W A qdebug qnoenrich c) = c
      \<and> reply (getData enabled rt clock results now W A qdebug qnoenrich c) =
          (case fetchWindborne24h rt clock (qdebug = ''1'') results of
             Inl e \<Rightarrow> Failed e
           | Inr r \<Rightarrow>
               if qdebug = ''1''
               then FreshDebug (fetched_debug r) (enabled \<and> qnoenrich \<noteq> ''1'')
                      (if enabled \<and> qnoenrich \<noteq> ''1'' then Enriched (enrich W A (fetched_points r))
                       else Plain (fetched_points r))
               else Fresh (Plain (fetched_points r)))
      \<and> (\<forall>c'. reply (getData enabled rt clock results now W A qdebug qnoenrich c')
              = reply (getData enabled rt clock results now W A qdebug qnoenrich c)))
   \<and> (use_cache enabled qdebug qnoenrich \<longrightarrow>
        (\<forall>ps. points c = Some ps \<and> now - time c < CACHE_MS \<longrightarrow>
            reply (getData enabled rt clock results now W A qdebug qnoenrich c) = Cached ps
          \<and> cache_after (getData enabled rt clock results now W A qdebug qnoenrich c) = c
          \<and> \<not> fetch_called (getData enabled rt clock results now W A qdebug qnoenrich c))
      \<and> (points c = None \<or> CACHE_MS \<le> now - time c \<longrightarrow>
            fetch_called (getData enabled rt clock results now W A qdebug qnoenrich c)
          \<and> (\<forall>e. fetchWindborne24h rt clock False results = Inl e \<longrightarrow>
                reply (getData enabled rt clock results now W A qdebug qnoenrich c) = Failed e
              \<and> cache_after (getData enabled rt clock results now W A qdebug qnoenrich c) = c)
          \<and> (\<forall>r. fetchWindborne24h rt clock False results = Inr r \<longrightarrow>
                reply (getData enabled rt clock results now W A qdebug qnoenrich c) = Fresh (Enriched (enrich W A (fetched_points r)))
              \<and> cache_after (getData enabled rt clock results now W A qdebug qnoenrich c)
                  = \<lparr>time = now, points = Some (Enriched (enrich W A (fetched_points r)))\<rparr>)))
   \<and> (\<not> enabled \<longrightarrow>
        fetch_called (getData enabled rt clock results now W A qdebug qnoenrich c)
      \<and> cache_after (getData enabled rt clock results now W A qdebug qnoenrich c) = c
      \<and> (\<forall>ps. reply (getData enabled rt clock results now W A qdebug qnoenrich c) \<noteq> Cached ps)
      \<and> reply (getData enabled rt clock results now W A qdebug qnoenrich c) =
          (case fetchWindborne24h rt clock (qdebug = ''1'') results of
             Inl e \<Rightarrow> Failed e
           | Inr r \<Rightarrow>
               if qdebug = ''1'' then FreshDebug (fetched_debug r) False (Plain (fetched_points r))
               else Fresh (Plain (fetched_points r)))
      \<and> (\<forall>r. fetchWindborne24h rt clock False results = Inr r \<longrightarrow>
            warm enabled rt clock results now W A c = \<lparr>time = now, points = Some (Plain (fetched_points r))\<rparr>))
   \<and> (ENABLE_ENRICH env \<longleftrightarrow> env = Some ''1'')
   \<and> CACHE_MS = 300000"
proof (intro conjI)
  show "\<forall>ps. reply (getData enabled rt clock results now W A qdebug qnoenrich c) = Cached ps \<longrightarrow> use_cache enabled qdebug qnoenrich"
    using getData_without_cache[of enabled qdebug qnoenrich rt clock results now W A c]
    by (cases "use_cache enabled qdebug qnoenrich")
       (auto split: sum.splits if_splits)
  show "cache_after (getData enabled rt clock results now W A qdebug qnoenrich c) \<noteq> c \<longrightarrow> use_cache enabled qdebug qnoenrich \<and> fetch_called (getData enabled rt clock results now W A qdebug qnoenrich c)"
  proof (cases "use_cache enabled qdebug qnoenrich")
    case False
    then show ?thesis by (simp add: getData_without_cache)
  next
    case True
    show ?thesis
    proof (cases "points c = None \<or> CACHE_MS \<le> now - time c")
      case miss: True
      show ?thesis
        using True by (simp add: getData_cache_miss[OF True miss] split: sum.splits)
    next
      case False
      then obtain ps where "points c = Some ps" "now - time c < CACHE_MS" by auto
      then show ?thesis by (simp add: getData_cache_hit[OF True])
    qed
  qed
  show "\<not> use_cache enabled qdebug qnoenrich \<longrightarrow>
        fetch_called (getData enabled rt clock results now W A qdebug qnoenrich c)
      \<and> cache_after (getData enabled rt clock results now W A qdebug qnoenrich c) = c
      \<and> reply (getData enabled rt clock results now W A qdebug qnoenrich c) =
          (case fetchWindborne24h rt clock (qdebug = ''1'') results of
             Inl e \<Rightarrow> Failed e
           | Inr r \<Rightarrow>
               if qdebug = ''1''
               then FreshDebug (fetched_debug r) (enabled \<and> qnoenrich \<noteq> ''1'')
                      (if enabled \<and> qnoenrich \<noteq> ''1'' then Enriched (enrich W A (fetched_points r))
                       else Plain (fetched_points r))
               else Fresh (Plain (fetched_points r)))
      \<and> (\<forall>c'. reply (getData enabled rt clock results now W A qdebug qnoenrich c')
              = reply (getData enabled rt clock results now W A qdebug qnoenrich c))"
    by (simp add: getData_without_cache)
  show "use_cache enabled qdebug qnoenrich \<longrightarrow>
        (\<forall>ps. points c = Some ps \<and> now - time c < CACHE_MS \<longrightarrow>
            reply (getData enabled rt clock results now W A qdebug qnoenrich c) = Cached ps
          \<and> cache_after (getData enabled rt clock results now W A qdebug qnoenrich c) = c
          \<and> \<not> fetch_called (getData enabled rt clock results now W A qdebug qnoenrich c))
      \<and> (points c = None \<or> CACHE_MS \<le> now - time c \<longrightarrow>
            fetch_called (getData enabled rt clock results now W A qdebug qnoenrich c)
          \<and> (\<forall>e. fetchWindborne24h rt clock False results = Inl e \<longrightarrow>
                reply (getData enabled rt clock results now W A qdebug qnoenrich c) = Failed e
              \<and> cache_after (getData enabled rt clock results now W A qdebug qnoenrich c) = c)
          \<and> (\<forall>r. fetchWindborne24h rt clock False results = Inr r \<longrightarrow>
                reply (getData enabled rt clock results now W A qdebug qnoenrich c) = Fresh (Enriched (enrich W A (fetched_points r)))
              \<and> cache_after (getData enabled rt clock results now W A qdebug qnoenrich c)
                  = \<lparr>time = now, points = Some (Enriched (enrich W A (fetched_points r)))\<rparr>))"
  proof (intro impI conjI allI)
    fix ps
    assume u: "use_cache enabled qdebug qnoenrich" and h: "points c = Some ps \<and> now - time c < CACHE_MS"
    from h have h1: "points c = Some ps" and h2: "now - time c < CACHE_MS" by simp_all
    show "reply (getData enabled rt clock results now W A qdebug qnoenrich c) = Cached ps" "cache_after (getData enabled rt clock results now W A qdebug qnoenrich c) = c" "\<not> fetch_called (getData enabled rt clock results now W A qdebug qnoenrich c)"
      by (simp_all add: getData_cache_hit[OF u h1 h2])
  next
    assume u: "use_cache enabled qdebug qnoenrich" and m: "points c = None \<or> CACHE_MS \<le> now - time c"
    show "fetch_called (getData enabled rt clock results now W A qdebug qnoenrich c)"
      by (simp add: getData_cache_miss[OF u m] split: sum.splits)
    fix e assume "fetchWindborne24h rt clock False results = Inl e"
    then show "reply (getData enabled rt clock results now W A qdebug qnoenrich c) = Failed e" "cache_after (getData enabled rt clock results now W A qdebug qnoenrich c) = c"
      by (simp_all add: getData_cache_miss[OF u m])
  next
    fix r
    assume u: "use_cache enabled qdebug qnoenrich" and m: "points c = None \<or> CACHE_MS \<le> now - time c"
      and "fetchWindborne24h rt clock False results = Inr r"
    then show "reply (getData enabled rt clock results now W A qdebug qnoenrich c) = Fresh (Enriched (enrich W A (fetched_points r)))"
      "cache_after (getData enabled rt clock results now W A qdebug qnoenrich c) = \<lparr>time = now, points = Some (Enriched (enrich W A (fetched_points r)))\<rparr>"
      by (simp_all add: getData_cache_miss[OF u m])
  qed
  show "\<not> enabled \<longrightarrow>
        fetch_called (getData enabled rt clock results now W A qdebug qnoenrich c)
      \<and> cache_after (getData enabled rt clock results now W A qdebug qnoenrich c) = c
      \<and> (\<forall>ps. reply (getData enabled rt clock results now W A qdebug qnoenrich c) \<noteq> Cached ps)
      \<and> reply (getData enabled rt clock results now W A qdebug qnoenrich c) =
          (case fetchWindborne24h rt clock (qdebug = ''1'') results of
             Inl e \<Rightarrow> Failed e
           | Inr r \<Rightarrow>
               if qdebug = ''1'' then FreshDebug (fetched_debug r) False (Plain (fetched_points r))
               else Fresh (Plain (fetched_points r)))
      \<and> (\<forall>r. fetchWindborne24h rt clock False results = Inr r \<longrightarrow>
            warm enabled rt clock results now W A c = \<lparr>time = now, points = Some (Plain (fetched_points r))\<rparr>)"
  proof
    assume off: "\<not> enabled"
    then have nu: "\<not> use_cache enabled qdebug qnoenrich" by (simp add: use_cache_def)
    show "fetch_called (getData enabled rt clock results now W A qdebug qnoenrich c)
      \<and> cache_after (getData enabled rt clock results now W A qdebug qnoenrich c) = c
      \<and> (\<forall>ps. reply (getData enabled rt clock results now W A qdebug qnoenrich c) \<noteq> Cached ps)
      \<and> reply (getData enabled rt clock results now W A qdebug qnoenrich c) =
          (case fetchWindborne24h rt clock (qdebug = ''1'') results of
             Inl e \<Rightarrow> Failed e
           | Inr r \<Rightarrow>
               if qdebug = ''1'' then FreshDebug (fetched_debug r) False (Plain (fetched_points r))
               else Fresh (Plain (fetched_points r)))
      \<and> (\<forall>r. fetchWindborne24h rt clock False results = Inr r \<longrightarrow>
            warm enabled rt clock results now W A c = \<lparr>time = now, points = Some (Plain (fetched_points r))\<rparr>)"
      unfolding getData_without_cache[OF nu] using off
      by (cases "fetchWindborne24h rt clock (qdebug = ''1'') results")
         (simp_all add: warm_def Let_def)
  qed
  show "ENABLE_ENRICH env \<longleftrightarrow> env = Some ''1''"
    by (simp add: ENABLE_ENRICH_def)
  show "CACHE_MS = 300000"
    by (simp add: CACHE_MS_def)
qed

theorem getData_cache_gate_witness:
  "getData (ENABLE_ENRICH None) small_rt (\<lambda>i j. 5) [Inr tuple_body] 7 sample_wind sample_air [] []
        \<lparr>time = 3, points = Some (Plain [pt ''x'' 1 0])\<rparr>
     = \<lparr>reply = Fresh (Plain [tuple_point]),
        cache_after = \<lparr>time = 3, points = Some (Plain [pt ''x'' 1 0])\<rparr>, fetch_called = True\<rparr>
   \<and> warm (ENABLE_ENRICH None) small_rt (\<lambda>i j. 5) [Inr tuple_body] 7 sample_wind sample_air
        \<lparr>time = 3, points = Some (Plain [pt ''x'' 1 0])\<rparr>
       = \<lparr>time = 7, points = Some (Plain [tuple_point])\<rparr>
   \<and> getData (ENABLE_ENRICH (Some ''1'')) small_rt (\<lambda>i j. 5) [Inr tuple_body] 7 sample_wind sample_air [] []
        \<lparr>time = 3, points = Some (Plain [pt ''x'' 1 0])\<rparr>
     = \<lparr>reply = Cached (Plain [pt ''x'' 1 0]),
        cache_after = \<lparr>time = 3, points = Some (Plain [pt ''x'' 1 0])\<rparr>, fetch_called = False\<rparr>
   \<and> getData (ENABLE_ENRICH (Some ''1'')) small_rt (\<lambda>i j. 5) [Inr tuple_body] 400000 sample_wind sample_air [] []
        \<lparr>time = 3, points = Some (Plain [pt ''x'' 1 0])\<rparr>
     = \<lparr>reply = Fresh (Enriched (enrich sample_wind sample_air [tuple_point])),
        cache_after = \<lparr>time = 400000, points = Some (Enriched (enrich sample_wind sample_air [tuple_point]))\<rparr>,
        fetch_called = True\<rparr>
   \<and> reply (getData (ENABLE_ENRICH (Some ''1'')) small_rt (\<lambda>i j. 5) [Inr tuple_body] 7 sample_wind sample_air ''1'' []
        \<lparr>time = 3, points = Some (Plain [pt ''x'' 1 0])\<rparr>)
     = FreshDebug (Some \<lparr>files_ok = 1, files_failed = 0, raw_records = 1, normalized = 1,
                          unique_points = 1\<rparr>) True (Enriched (enrich sample_wind sample_air [tuple_point]))"
proof -
  have off: "\<not> ENABLE_ENRICH None" and on: "ENABLE_ENRICH (Some ''1'')"
    by (simp_all add: ENABLE_ENRICH_def)
  have f: "fetchWindborne24h small_rt (\<lambda>i j. 5) False [Inr tuple_body] = Inr (Points [tuple_point])"
    "fetchWindborne24h small_rt (\<lambda>i j. 5) True [Inr tuple_body] =
       Inr (WithDebug \<lparr>files_ok = 1, files_failed = 0, raw_records = 1, normalized = 1,
                       unique_points = 1\<rparr> [tuple_point])"
    by (simp_all add: fetch_tuple_body)
  let ?c = "\<lparr>time = 3, points = Some (Plain [pt ''x'' 1 0])\<rparr>"
  note t1 = getData_cache_gate[of "ENABLE_ENRICH None" small_rt "\<lambda>i j. 5" "[Inr tuple_body]" 7
      sample_wind sample_air "[]" "[]" ?c None]
  note t2 = getData_cache_gate[of "ENABLE_ENRICH (Some ''1'')" small_rt "\<lambda>i j. 5" "[Inr tuple_body]" 7
      sample_wind sample_air "[]" "[]" ?c None]
  note t3 = getData_cache_gate[of "ENABLE_ENRICH (Some ''1'')" small_rt "\<lambda>i j. 5" "[Inr tuple_body]" 400000
      sample_wind sample_air "[]" "[]" ?c None]
  note t4 = getData_cache_gate[of "ENABLE_ENRICH (Some ''1'')" small_rt "\<lambda>i j. 5" "[Inr tuple_body]" 7
      sample_wind sample_air "''1''" "[]" ?c None]
  have a: "getData (ENABLE_ENRICH None) small_rt (\<lambda>i j. 5) [Inr tuple_body] 7 sample_wind sample_air [] [] ?c
     = \<lparr>reply = Fresh (Plain [tuple_point]), cache_after = ?c, fetch_called = True\<rparr>"
    using t1 off f by (intro served.equality) simp_all
  have b: "warm (ENABLE_ENRICH None) small_rt (\<lambda>i j. 5) [Inr tuple_body] 7 sample_wind sample_air ?c
       = \<lparr>time = 7, points = Some (Plain [tuple_point])\<rparr>"
    using t1 off f by simp
  have c: "getData (ENABLE_ENRICH (Some ''1'')) small_rt (\<lambda>i j. 5) [Inr tuple_body] 7 sample_wind sample_air [] [] ?c
     = \<lparr>reply = Cached (Plain [pt ''x'' 1 0]), cache_after = ?c, fetch_called = False\<rparr>"
    using t2 on by (intro served.equality) (simp_all add: use_cache_def)
  have d: "getData (ENABLE_ENRICH (Some ''1'')) small_rt (\<lambda>i j. 5) [Inr tuple_body] 400000 sample_wind sample_air [] [] ?c
     = \<lparr>reply = Fresh (Enriched (enrich sample_wind sample_air [tuple_point])),
        cache_after = \<lparr>time = 400000, points = Some (Enriched (enrich sample_wind sample_air [tuple_point]))\<rparr>,
        fetch_called = True\<rparr>"
    using t3 on f by (intro served.equality) (simp_all add: use_cache_def)
  have e: "reply (getData (ENABLE_ENRICH (Some ''1'')) small_rt (\<lambda>i j. 5) [Inr tuple_body] 7 sample_wind sample_air ''1'' [] ?c)
     = FreshDebug (Some \<lparr>files_ok = 1, files_failed = 0, raw_records = 1, normalized = 1,
                          unique_points = 1\<rparr>) True (Enriched (enrich sample_wind sample_air [tuple_point]))"
    using t4 on f by (simp add: use_cache_def)
  from a b c d e show ?thesis by (intro conjI)
qed

end
